theory Spec2Isabelle
  imports Main "HOL-Library.Sublist"
begin

section \<open>agent\_coder: prompt-to-filesystem materialization (\<^verbatim>\<open>main.go\<close>)\<close>

text \<open>
  The program is one Go function, \<^verbatim>\<open>main\<close>. It reads two command-line flags, one line
  of standard input, calls a generative-AI client, decodes the first response part as a JSON
  array of \<^verbatim>\<open>File\<close> records and writes each record under an output directory.

  Go strings are byte sequences; they are modelled as \<^typ>\<open>string\<close> (a list of 8-bit
  characters). The functions of Go's standard library that \<^verbatim>\<open>main\<close> calls are modelled
  from their documented behaviour, under their Go names; the sections below say for each
  of them what is covered.
\<close>

subsection \<open>Bytes\<close>

definition byte :: "char \<Rightarrow> nat" where
  "byte c = of_char c"

definition chr :: "nat \<Rightarrow> char" where
  "chr n = char_of n"

subsection \<open>\<^verbatim>\<open>unicode/utf8\<close>: decoding and encoding runes\<close>

text \<open>
  A rune is a code point, a natural number. \<^verbatim>\<open>utf8.DecodeRune\<close> returns the first rune
  of a byte string and its width; an ill-formed or truncated sequence is
  \<^verbatim>\<open>(RuneError, 1)\<close>, the empty string \<^verbatim>\<open>(RuneError, 0)\<close>. The accepted ranges of
  the second byte are those of Go's \<^verbatim>\<open>acceptRanges\<close> table (no overlong forms, no
  surrogates, nothing above U+10FFFF).
\<close>

definition RuneError :: nat where
  "RuneError = 0xFFFD"

definition RuneSelf :: nat where
  "RuneSelf = 0x80"

definition is_cont :: "nat \<Rightarrow> bool" where
  "is_cont b = (0x80 \<le> b \<and> b \<le> 0xBF)"

text \<open>The width announced by a leading byte and the range of the byte after it.\<close>

definition first_byte :: "nat \<Rightarrow> (nat \<times> nat \<times> nat) option" where
  "first_byte p0 =
     (if 0xC2 \<le> p0 \<and> p0 \<le> 0xDF then Some (2, 0x80, 0xBF)
      else if p0 = 0xE0 then Some (3, 0xA0, 0xBF)
      else if 0xE1 \<le> p0 \<and> p0 \<le> 0xEC then Some (3, 0x80, 0xBF)
      else if p0 = 0xED then Some (3, 0x80, 0x9F)
      else if 0xEE \<le> p0 \<and> p0 \<le> 0xEF then Some (3, 0x80, 0xBF)
      else if p0 = 0xF0 then Some (4, 0x90, 0xBF)
      else if 0xF1 \<le> p0 \<and> p0 \<le> 0xF3 then Some (4, 0x80, 0xBF)
      else if p0 = 0xF4 then Some (4, 0x80, 0x8F)
      else None)"

definition DecodeRune :: "string \<Rightarrow> nat \<times> nat" where
  "DecodeRune p =
     (case map byte p of
        [] \<Rightarrow> (RuneError, 0)
      | p0 # bs \<Rightarrow>
          if p0 < RuneSelf then (p0, 1)
          else (case first_byte p0 of
            None \<Rightarrow> (RuneError, 1)
          | Some (sz, lo, hi) \<Rightarrow>
              if length bs + 1 < sz then (RuneError, 1)
              else
                let b1 = bs ! 0 in
                if b1 < lo \<or> hi < b1 then (RuneError, 1)
                else if sz \<le> 2 then ((p0 mod 32) * 64 + b1 mod 64, 2)
                else
                  let b2 = bs ! 1 in
                  if \<not> is_cont b2 then (RuneError, 1)
                  else if sz \<le> 3 then ((p0 mod 16) * 4096 + (b1 mod 64) * 64 + b2 mod 64, 3)
                  else
                    let b3 = bs ! 2 in
                    if \<not> is_cont b3 then (RuneError, 1)
                    else ((p0 mod 8) * 262144 + (b1 mod 64) * 4096 + (b2 mod 64) * 64
                            + b3 mod 64, 4)))"

text \<open>
  \<^verbatim>\<open>utf8.DecodeLastRune\<close>: the last rune of a byte string and its width. It steps back
  over at most \<^verbatim>\<open>UTFMax = 4\<close> bytes to a byte that can start a rune, decodes from
  there, and accepts the rune only if it ends where the string ends.
\<close>

definition RuneStart :: "nat \<Rightarrow> bool" where
  "RuneStart b = (\<not> is_cont b)"

fun last_start :: "string \<Rightarrow> nat \<Rightarrow> nat \<Rightarrow> nat" where
  "last_start p lim start =
     (if start \<le> lim then lim
      else if RuneStart (byte (p ! (start - 1))) then start - 1
      else last_start p lim (start - 1))"

declare last_start.simps [simp del]

definition DecodeLastRune :: "string \<Rightarrow> nat \<times> nat" where
  "DecodeLastRune p =
     (let end = length p in
      if end = 0 then (RuneError, 0)
      else if byte (p ! (end - 1)) < RuneSelf then (byte (p ! (end - 1)), 1)
      else
        let start = last_start p (end - 4) (end - 1);
            (r, size) = DecodeRune (drop start p)
        in if start + size \<noteq> end then (RuneError, 1) else (r, size))"

text \<open>
  \<^verbatim>\<open>utf8.EncodeRune\<close>: surrogates and values above U+10FFFF are written as
  \<^verbatim>\<open>RuneError\<close>.
\<close>

definition EncodeRune :: "nat \<Rightarrow> string" where
  "EncodeRune r0 =
     (let r = (if 0x10FFFF < r0 \<or> (0xD800 \<le> r0 \<and> r0 \<le> 0xDFFF) then RuneError else r0) in
      if r \<le> 0x7F then [chr r]
      else if r \<le> 0x7FF then [chr (0xC0 + r div 64), chr (0x80 + r mod 64)]
      else if r \<le> 0xFFFF then
        [chr (0xE0 + r div 4096), chr (0x80 + (r div 64) mod 64), chr (0x80 + r mod 64)]
      else
        [chr (0xF0 + r div 262144), chr (0x80 + (r div 4096) mod 64),
         chr (0x80 + (r div 64) mod 64), chr (0x80 + r mod 64)])"

subsection \<open>\<^verbatim>\<open>strings.TrimSpace\<close>\<close>

text \<open>
  \<^verbatim>\<open>unicode.IsSpace\<close>: the Latin-1 spaces and the other code points with the Unicode
  property \<^verbatim>\<open>White_Space\<close>.
\<close>

definition IsSpace :: "nat \<Rightarrow> bool" where
  "IsSpace r =
     ((0x09 \<le> r \<and> r \<le> 0x0D) \<or> r = 0x20 \<or> r = 0x85 \<or> r = 0xA0 \<or> r = 0x1680
      \<or> (0x2000 \<le> r \<and> r \<le> 0x200A) \<or> r = 0x2028 \<or> r = 0x2029 \<or> r = 0x202F
      \<or> r = 0x205F \<or> r = 0x3000)"

text \<open>
  \<^verbatim>\<open>TrimSpace(s) = TrimRightFunc(TrimLeftFunc(s, unicode.IsSpace), unicode.IsSpace)\<close>
  (Go's ASCII fast path computes the same slice). The left trim decodes runes from the
  front, the right trim from the back.
\<close>

lemma DecodeRune_size: "s \<noteq> [] \<Longrightarrow> 1 \<le> snd (DecodeRune s)"
  by (cases s) (simp_all add: DecodeRune_def Let_def split: option.splits)

lemma last_start_le: "lim \<le> start \<Longrightarrow> last_start p lim start \<le> start"
proof (induction p lim start rule: last_start.induct)
  case (1 p lim start)
  show ?case
  proof (cases "start \<le> lim \<or> RuneStart (byte (p ! (start - 1)))")
    case True
    with "1.prems" show ?thesis
      by (subst last_start.simps) auto
  next
    case False
    then have "lim \<le> start - 1"
      by arith
    with False "1.IH" have "last_start p lim (start - 1) \<le> start - 1"
      by blast
    with False show ?thesis
      by (subst last_start.simps) simp
  qed
qed

lemma DecodeLastRune_size: "s \<noteq> [] \<Longrightarrow> 1 \<le> snd (DecodeLastRune s)"
proof -
  assume ne: "s \<noteq> []"
  let ?start = "last_start s (length s - 4) (length s - 1)"
  have "?start \<le> length s - 1"
    by (rule last_start_le) simp
  moreover from ne have "length s - 1 < length s"
    by (cases s) simp_all
  ultimately have "drop ?start s \<noteq> []"
    by simp
  from DecodeRune_size [OF this] ne show ?thesis
    by (auto simp: DecodeLastRune_def Let_def split: prod.splits)
qed

function TrimLeft :: "string \<Rightarrow> string" where
  "TrimLeft s =
     (if s = [] then []
      else let (r, size) = DecodeRune s in
        if IsSpace r then TrimLeft (drop size s) else s)"
  by pat_completeness auto
termination
proof (relation "measure length", goal_cases)
  case 1
  show ?case by simp
next
  case (2 s x r size)
  with DecodeRune_size [of s] show ?case by (cases "DecodeRune s") auto
qed

function TrimRight :: "string \<Rightarrow> string" where
  "TrimRight s =
     (if s = [] then []
      else let (r, size) = DecodeLastRune s in
        if IsSpace r then TrimRight (take (length s - size) s) else s)"
  by pat_completeness auto
termination
proof (relation "measure length", goal_cases)
  case 1
  show ?case by simp
next
  case (2 s x r size)
  with DecodeLastRune_size [of s] show ?case by (cases "DecodeLastRune s") auto
qed

declare TrimLeft.simps [simp del] TrimRight.simps [simp del]

definition TrimSpace :: "string \<Rightarrow> string" where
  "TrimSpace s = TrimRight (TrimLeft s)"

subsection \<open>\<^verbatim>\<open>encoding/json\<close>: the syntax of a JSON text\<close>

text \<open>
  \<^verbatim>\<open>json.Unmarshal\<close> first checks that its input is one well-formed JSON value
  (\<^verbatim>\<open>checkValid\<close>) and then decodes it. The model reads the text in the same two steps:
  the text is cut into tokens, and a push-down automaton with the states of Go's scanner
  (\<^verbatim>\<open>stateBeginValue\<close>, \<^verbatim>\<open>stateBeginValueOrEmpty\<close>, \<^verbatim>\<open>stateBeginStringOrEmpty\<close>,
  \<^verbatim>\<open>stateBeginString\<close>, \<^verbatim>\<open>stateEndValue\<close>) builds the value. String tokens carry
  the unquoted string (\<^verbatim>\<open>unquoteBytes\<close>). The value of a number is never read by a
  decoder into \<^verbatim>\<open>[]File\<close>, so a number token carries nothing.
\<close>

datatype token =
    LBracket | RBracket | LBrace | RBrace | Colon | Comma
  | StringTok string | NumberTok | TrueTok | FalseTok | NullTok

definition is_json_space :: "char \<Rightarrow> bool" where
  "is_json_space c = (c = CHR '' '' \<or> c = CHR 0x09 \<or> c = CHR 0x0D \<or> c = CHR 0x0A)"

definition is_digit :: "char \<Rightarrow> bool" where
  "is_digit c = (0x30 \<le> byte c \<and> byte c \<le> 0x39)"

text \<open>Numbers: \<^verbatim>\<open>-? (0 | [1-9][0-9]*) (. [0-9]+)? ([eE] [+-]? [0-9]+)?\<close>. Each function
  returns the text after the part it read.\<close>

definition scan_exp :: "string \<Rightarrow> string option" where
  "scan_exp s =
     (case s of
        [] \<Rightarrow> Some []
      | c # cs \<Rightarrow>
          if c = CHR ''e'' \<or> c = CHR ''E'' then
            (let ds = (case cs of
                         [] \<Rightarrow> []
                       | d # r \<Rightarrow> if d = CHR ''+'' \<or> d = CHR ''-'' then r else cs)
             in case ds of
                  [] \<Rightarrow> None
                | d # r \<Rightarrow> if is_digit d then Some (dropWhile is_digit r) else None)
          else Some s)"

definition scan_frac :: "string \<Rightarrow> string option" where
  "scan_frac s =
     (case s of
        [] \<Rightarrow> Some []
      | c # cs \<Rightarrow>
          if c = CHR ''.'' then
            (case cs of
               [] \<Rightarrow> None
             | d # r \<Rightarrow> if is_digit d then scan_exp (dropWhile is_digit r) else None)
          else scan_exp s)"

definition scan_number :: "string \<Rightarrow> string option" where
  "scan_number s =
     (let ds = (case s of [] \<Rightarrow> [] | c # cs \<Rightarrow> if c = CHR ''-'' then cs else s)
      in case ds of
           [] \<Rightarrow> None
         | d # r \<Rightarrow>
             if d = CHR ''0'' then scan_frac r
             else if is_digit d then scan_frac (dropWhile is_digit r)
             else None)"

text \<open>Strings. \<^verbatim>\<open>getu4\<close> reads \<^verbatim>\<open>\uXXXX\<close> at the head of its argument.\<close>

definition hex_val :: "char \<Rightarrow> nat option" where
  "hex_val c =
     (let b = byte c in
      if 0x30 \<le> b \<and> b \<le> 0x39 then Some (b - 0x30)
      else if 0x61 \<le> b \<and> b \<le> 0x66 then Some (b - 0x61 + 10)
      else if 0x41 \<le> b \<and> b \<le> 0x46 then Some (b - 0x41 + 10)
      else None)"

definition getu4 :: "string \<Rightarrow> nat option" where
  "getu4 s =
     (case s of
        b # u # h1 # h2 # h3 # h4 # _ \<Rightarrow>
          if b = CHR 0x5C \<and> u = CHR ''u'' then
            (case (hex_val h1, hex_val h2, hex_val h3, hex_val h4) of
               (Some x1, Some x2, Some x3, Some x4) \<Rightarrow>
                 Some (((x1 * 16 + x2) * 16 + x3) * 16 + x4)
             | _ \<Rightarrow> None)
          else None
      | _ \<Rightarrow> None)"

definition IsSurrogate :: "nat \<Rightarrow> bool" where
  "IsSurrogate r = (0xD800 \<le> r \<and> r < 0xE000)"

text \<open>\<^verbatim>\<open>utf16.DecodeRune\<close>; the second argument is \<^verbatim>\<open>None\<close> where Go passes -1.\<close>

definition utf16_DecodeRune :: "nat \<Rightarrow> nat option \<Rightarrow> nat" where
  "utf16_DecodeRune r1 r2o =
     (case r2o of
        None \<Rightarrow> RuneError
      | Some r2 \<Rightarrow>
          if 0xD800 \<le> r1 \<and> r1 < 0xDC00 \<and> 0xDC00 \<le> r2 \<and> r2 < 0xE000
          then (r1 - 0xD800) * 1024 + (r2 - 0xDC00) + 0x10000
          else RuneError)"

definition unescape :: "char \<Rightarrow> char option" where
  "unescape e =
     (if e = CHR 0x22 \<or> e = CHR 0x5C \<or> e = CHR ''/'' then Some e
      else if e = CHR ''b'' then Some (CHR 0x08)
      else if e = CHR ''f'' then Some (CHR 0x0C)
      else if e = CHR ''n'' then Some (CHR 0x0A)
      else if e = CHR ''r'' then Some (CHR 0x0D)
      else if e = CHR ''t'' then Some (CHR 0x09)
      else None)"

definition emit :: "string \<Rightarrow> (string \<times> string) option \<Rightarrow> (string \<times> string) option" where
  "emit bs r = (case r of None \<Rightarrow> None | Some (v, rest) \<Rightarrow> Some (bs @ v, rest))"

text \<open>
  \<^verbatim>\<open>scan_string s\<close> reads a string literal whose opening quote has been read: it returns
  the unquoted bytes and the text after the closing quote. Control characters and unknown
  escapes are syntax errors; a surrogate escape not followed by its partner and a byte
  sequence that is not UTF-8 become U+FFFD.
\<close>

function scan_string :: "string \<Rightarrow> (string \<times> string) option" where
  "scan_string s =
     (case s of
        [] \<Rightarrow> None
      | c # cs \<Rightarrow>
          if c = CHR 0x22 then Some ([], cs)
          else if c = CHR 0x5C then
            (case cs of
               [] \<Rightarrow> None
             | e # es \<Rightarrow>
                 if e = CHR ''u'' then
                   (case getu4 s of
                      None \<Rightarrow> None
                    | Some rr \<Rightarrow>
                        if IsSurrogate rr then
                          (if utf16_DecodeRune rr (getu4 (drop 6 s)) \<noteq> RuneError
                           then emit (EncodeRune (utf16_DecodeRune rr (getu4 (drop 6 s))))
                                  (scan_string (drop 12 s))
                           else emit (EncodeRune RuneError) (scan_string (drop 6 s)))
                        else emit (EncodeRune rr) (scan_string (drop 6 s)))
                 else (case unescape e of
                         None \<Rightarrow> None
                       | Some b \<Rightarrow> emit [b] (scan_string es)))
          else if byte c < 0x20 then None
          else if byte c < RuneSelf then emit [c] (scan_string cs)
          else (let (r, size) = DecodeRune s
                in emit (EncodeRune r) (scan_string (drop size s))))"
  by pat_completeness auto
termination
proof (relation "measure length", goal_cases)
  case (7 s c cs r size)
  with DecodeRune_size [of s] show ?case by (cases "DecodeRune s") auto
qed auto

declare scan_string.simps [simp del]

lemma chr_eq_iff: "(chr n = c) = (n mod 256 = byte c)"
  unfolding chr_def byte_def
  by (simp add: char_of_eq_iff take_bit_eq_mod)

lemma emit_SomeD: "emit bs r = Some (v, rest) \<Longrightarrow> \<exists>v'. r = Some (v', rest)"
  by (auto simp: emit_def split: option.splits)

lemma scan_string_rest: "scan_string s = Some (v, rest) \<Longrightarrow> length rest < length s"
proof (induction "length s" arbitrary: s v rest rule: less_induct)
  case less
  have IH: "\<And>t v' r. scan_string t = Some (v', r) \<Longrightarrow> length t < length s
              \<Longrightarrow> length r < length t"
    using less.hyps by blast
  from less.prems show ?case
    apply (subst (asm) scan_string.simps)
    apply (cases s)
     apply simp
    subgoal for c cs
      using DecodeRune_size [of s]
      apply (simp split: if_splits list.splits option.splits prod.splits)
           apply (auto dest!: emit_SomeD dest!: IH)
      done
    done
qed

lemma scan_exp_rest: "scan_exp s = Some r \<Longrightarrow> length r \<le> length s"
  using length_dropWhile_le [of is_digit]
  by (auto simp: scan_exp_def Let_def le_Suc_eq split: list.splits if_splits)

lemma scan_frac_rest: "scan_frac s = Some r \<Longrightarrow> length r \<le> length s"
  using length_dropWhile_le [of is_digit "tl (tl s)"]
  by (auto simp: scan_frac_def split: list.splits if_splits dest!: scan_exp_rest)

lemma scan_number_rest: "scan_number s = Some r \<Longrightarrow> length r < length s"
  using length_dropWhile_le [of is_digit "tl s"] length_dropWhile_le [of is_digit "tl (tl s)"]
  by (auto simp: scan_number_def Let_def split: list.splits if_splits dest!: scan_frac_rest)

definition cons_tok :: "token \<Rightarrow> token list option \<Rightarrow> token list option" where
  "cons_tok t r = (case r of None \<Rightarrow> None | Some ts \<Rightarrow> Some (t # ts))"

function tokenize :: "string \<Rightarrow> token list option" where
  "tokenize s =
     (case s of
        [] \<Rightarrow> Some []
      | c # cs \<Rightarrow>
          if is_json_space c then tokenize cs
          else if c = CHR ''['' then cons_tok LBracket (tokenize cs)
          else if c = CHR '']'' then cons_tok RBracket (tokenize cs)
          else if c = CHR ''{'' then cons_tok LBrace (tokenize cs)
          else if c = CHR ''}'' then cons_tok RBrace (tokenize cs)
          else if c = CHR '':'' then cons_tok Colon (tokenize cs)
          else if c = CHR '','' then cons_tok Comma (tokenize cs)
          else if c = CHR 0x22 then
            (case scan_string cs of
               None \<Rightarrow> None
             | Some (v, rest) \<Rightarrow> cons_tok (StringTok v) (tokenize rest))
          else if c = CHR ''-'' \<or> is_digit c then
            (case scan_number s of
               None \<Rightarrow> None
             | Some rest \<Rightarrow> cons_tok NumberTok (tokenize rest))
          else if take 4 s = ''true'' then cons_tok TrueTok (tokenize (drop 4 s))
          else if take 5 s = ''false'' then cons_tok FalseTok (tokenize (drop 5 s))
          else if take 4 s = ''null'' then cons_tok NullTok (tokenize (drop 4 s))
          else None)"
  by pat_completeness auto
termination
proof (relation "measure length", goal_cases)
  case (9 s c cs x v rest)
  then show ?case using scan_string_rest [of cs v rest] by simp
next
  case (10 s c cs rest)
  then show ?case using scan_number_rest [of s rest] by simp
qed auto

declare tokenize.simps [simp del]

text \<open>The values of JSON, and the automaton that builds one from the tokens.\<close>

datatype json =
    JNull | JBool bool | JNumber | JString string
  | JArray "json list" | JObject "(string \<times> json) list"

text \<open>
  The parse stack. An array frame holds the elements read so far; an object frame holds
  the members read so far and the key that waits for its value.
\<close>

datatype frame = ArrayFrame "json list" | ObjectFrame "(string \<times> json) list" "string option"

datatype scan_state =
    BeginValue | BeginValueOrEmpty | BeginStringOrEmpty | BeginString
  | ObjectKey | EndValue | EndTop json

definition maxNestingDepth :: nat where
  "maxNestingDepth = 10000"

definition end_value :: "json \<Rightarrow> frame list \<Rightarrow> (scan_state \<times> frame list) option" where
  "end_value v stack =
     (case stack of
        [] \<Rightarrow> Some (EndTop v, [])
      | ArrayFrame vs # st \<Rightarrow> Some (EndValue, ArrayFrame (vs @ [v]) # st)
      | ObjectFrame ms (Some k) # st \<Rightarrow> Some (EndValue, ObjectFrame (ms @ [(k, v)]) None # st)
      | ObjectFrame ms None # st \<Rightarrow> None)"

definition pushParseState ::
  "frame \<Rightarrow> scan_state \<Rightarrow> frame list \<Rightarrow> (scan_state \<times> frame list) option" where
  "pushParseState f next stack =
     (if length stack + 1 \<le> maxNestingDepth then Some (next, f # stack) else None)"

definition begin_value :: "token \<Rightarrow> frame list \<Rightarrow> (scan_state \<times> frame list) option" where
  "begin_value t stack =
     (case t of
        LBracket \<Rightarrow> pushParseState (ArrayFrame []) BeginValueOrEmpty stack
      | LBrace \<Rightarrow> pushParseState (ObjectFrame [] None) BeginStringOrEmpty stack
      | StringTok s \<Rightarrow> end_value (JString s) stack
      | NumberTok \<Rightarrow> end_value JNumber stack
      | TrueTok \<Rightarrow> end_value (JBool True) stack
      | FalseTok \<Rightarrow> end_value (JBool False) stack
      | NullTok \<Rightarrow> end_value JNull stack
      | _ \<Rightarrow> None)"

definition close_array :: "frame list \<Rightarrow> (scan_state \<times> frame list) option" where
  "close_array stack =
     (case stack of ArrayFrame vs # st \<Rightarrow> end_value (JArray vs) st | _ \<Rightarrow> None)"

definition close_object :: "frame list \<Rightarrow> (scan_state \<times> frame list) option" where
  "close_object stack =
     (case stack of ObjectFrame ms None # st \<Rightarrow> end_value (JObject ms) st | _ \<Rightarrow> None)"

definition begin_string :: "token \<Rightarrow> frame list \<Rightarrow> (scan_state \<times> frame list) option" where
  "begin_string t stack =
     (case t of
        StringTok k \<Rightarrow>
          (case stack of
             ObjectFrame ms None # st \<Rightarrow> Some (ObjectKey, ObjectFrame ms (Some k) # st)
           | _ \<Rightarrow> None)
      | _ \<Rightarrow> None)"

fun scan_step :: "scan_state \<Rightarrow> token \<Rightarrow> frame list \<Rightarrow> (scan_state \<times> frame list) option" where
  "scan_step BeginValue t stack = begin_value t stack"
| "scan_step BeginValueOrEmpty t stack =
     (if t = RBracket then close_array stack else begin_value t stack)"
| "scan_step BeginStringOrEmpty t stack =
     (if t = RBrace then close_object stack else begin_string t stack)"
| "scan_step BeginString t stack = begin_string t stack"
| "scan_step ObjectKey t stack = (if t = Colon then Some (BeginValue, stack) else None)"
| "scan_step EndValue t stack =
     (case stack of
        [] \<Rightarrow> None
      | ArrayFrame vs # st \<Rightarrow>
          if t = Comma then Some (BeginValue, stack)
          else if t = RBracket then close_array stack
          else None
      | ObjectFrame ms k # st \<Rightarrow>
          if t = Comma then Some (BeginString, stack)
          else if t = RBrace then close_object stack
          else None)"
| "scan_step (EndTop v) t stack = None"

fun scan_tokens :: "token list \<Rightarrow> scan_state \<times> frame list \<Rightarrow> (scan_state \<times> frame list) option" where
  "scan_tokens [] cfg = Some cfg"
| "scan_tokens (t # ts) (st, stack) =
     (case scan_step st t stack of None \<Rightarrow> None | Some cfg \<Rightarrow> scan_tokens ts cfg)"

definition parse_json :: "string \<Rightarrow> json option" where
  "parse_json data =
     (case tokenize data of
        None \<Rightarrow> None
      | Some ts \<Rightarrow>
          (case scan_tokens ts (BeginValue, []) of
             Some (EndTop v, _) \<Rightarrow> Some v
           | _ \<Rightarrow> None))"

subsection \<open>\<^verbatim>\<open>encoding/json\<close>: decoding into \<^verbatim>\<open>[]File\<close>\<close>

text \<open>
  \<^verbatim>\<open>main.go\<close>, lines 17 to 20:
  \<^verbatim>\<open>type File struct { Name string `json:"file_name"`; Code string `json:"source_code"` }\<close>
\<close>

record File =
  Name :: string
  Code :: string

datatype field = Field_Name | Field_Code

text \<open>
  A key names the field it equals, or else the field it equals under \<^verbatim>\<open>foldName\<close>:
  ASCII letters in upper case, other runes replaced by the least rune of their simple case
  folding orbit. Both field names are ASCII, and the only runes outside ASCII that fold to an
  ASCII letter are U+017F (to S) and U+212A (to K); \<open>foldRune\<close> leaves every other rune as
  it is, which gives the same comparisons with an ASCII name as Unicode's full table.
\<close>

definition foldRune :: "nat \<Rightarrow> nat" where
  "foldRune r = (if r = 0x17F then 0x53 else if r = 0x212A then 0x4B else r)"

function foldName :: "string \<Rightarrow> string" where
  "foldName s =
     (case s of
        [] \<Rightarrow> []
      | c # cs \<Rightarrow>
          if byte c < RuneSelf then
            (if 0x61 \<le> byte c \<and> byte c \<le> 0x7A then chr (byte c - 0x20) else c) # foldName cs
          else (let (r, size) = DecodeRune s
                in EncodeRune (foldRune r) @ foldName (drop size s)))"
  by pat_completeness auto
termination
proof (relation "measure length", goal_cases)
  case (3 s c cs x r size)
  with DecodeRune_size [of s] show ?case by (cases "DecodeRune s") auto
qed auto

declare foldName.simps [simp del]

definition field_of_key :: "string \<Rightarrow> field option" where
  "field_of_key key =
     (if key = ''file_name'' then Some Field_Name
      else if key = ''source_code'' then Some Field_Code
      else if foldName key = ''FILE_NAME'' then Some Field_Name
      else if foldName key = ''SOURCE_CODE'' then Some Field_Code
      else None)"

text \<open>
  Storing a JSON value in a Go string variable that holds \<open>cur\<close>: a string replaces it,
  \<^verbatim>\<open>null\<close> leaves it, anything else is an \<^verbatim>\<open>UnmarshalTypeError\<close>. The decoder goes
  on after such an error and reports it at the end; \<^verbatim>\<open>main\<close> only tests
  \<^verbatim>\<open>err == nil\<close>, so the model returns \<open>None\<close> at once.
\<close>

definition store_string :: "json \<Rightarrow> string \<Rightarrow> string option" where
  "store_string v cur =
     (case v of JString s \<Rightarrow> Some s | JNull \<Rightarrow> Some cur | _ \<Rightarrow> None)"

text \<open>
  An object stored in a \<^verbatim>\<open>File\<close>: the members are taken in order, so of two members
  for one field the later wins; a member with an unknown key is skipped; a field without a
  member keeps the value it had.
\<close>

fun object_File :: "(string \<times> json) list \<Rightarrow> File \<Rightarrow> File option" where
  "object_File [] f = Some f"
| "object_File ((k, v) # ms) f =
     (case field_of_key k of
        None \<Rightarrow> object_File ms f
      | Some Field_Name \<Rightarrow>
          (case store_string v (Name f) of
             None \<Rightarrow> None
           | Some s \<Rightarrow> object_File ms (f\<lparr>Name := s\<rparr>))
      | Some Field_Code \<Rightarrow>
          (case store_string v (Code f) of
             None \<Rightarrow> None
           | Some s \<Rightarrow> object_File ms (f\<lparr>Code := s\<rparr>)))"

definition zero_File :: File where
  "zero_File = \<lparr>Name = [], Code = []\<rparr>"

text \<open>An element of the array: an object, or \<^verbatim>\<open>null\<close>, which leaves the zero \<^verbatim>\<open>File\<close>.\<close>

definition value_File :: "json \<Rightarrow> File option" where
  "value_File v =
     (case v of
        JObject ms \<Rightarrow> object_File ms zero_File
      | JNull \<Rightarrow> Some zero_File
      | _ \<Rightarrow> None)"

fun array_Files :: "json list \<Rightarrow> File list option" where
  "array_Files [] = Some []"
| "array_Files (v # vs) =
     (case value_File v of
        None \<Rightarrow> None
      | Some f \<Rightarrow> (case array_Files vs of None \<Rightarrow> None | Some fs \<Rightarrow> Some (f # fs)))"

text \<open>
  \<^verbatim>\<open>json.Unmarshal(data, &files)\<close> with \<^verbatim>\<open>var files []File\<close>: \<open>None\<close> is a non-nil
  error, \<open>Some files\<close> the slice after a nil error. The top-level value must be an array
  or \<^verbatim>\<open>null\<close> (which leaves the nil slice).
\<close>

definition value_Files :: "json \<Rightarrow> File list option" where
  "value_Files v =
     (case v of JArray vs \<Rightarrow> array_Files vs | JNull \<Rightarrow> Some [] | _ \<Rightarrow> None)"

definition Unmarshal :: "string \<Rightarrow> File list option" where
  "Unmarshal data =
     (case parse_json data of None \<Rightarrow> None | Some v \<Rightarrow> value_Files v)"

subsection \<open>\<^verbatim>\<open>flag\<close>: string flags on the command line\<close>

text \<open>
  The flag set maps the name of each defined flag to the current value of its variable.
  \<^verbatim>\<open>flag.String\<close> defines a flag and returns a pointer to the variable; the pointer is
  the flag's name here, and \<open>deref\<close> reads the variable. Both flags of \<^verbatim>\<open>main\<close> are
  string flags, so setting one never fails. The command-line flag set exits the process on
  a parse error (\<^verbatim>\<open>ExitOnError\<close>): status 0 after \<^verbatim>\<open>-h\<close> or \<^verbatim>\<open>-help\<close>, status 2
  otherwise. What the package writes to standard error is not modelled.
\<close>

type_synonym FlagSet = "string \<rightharpoonup> string"

definition flag_String :: "string \<Rightarrow> string \<Rightarrow> FlagSet \<Rightarrow> FlagSet" where
  "flag_String name val formal = formal(name \<mapsto> val)"

definition deref :: "FlagSet \<Rightarrow> string \<Rightarrow> string" where
  "deref formal name = (case formal name of Some v \<Rightarrow> v | None \<Rightarrow> [])"

datatype parsed = Seen FlagSet "string list" | Done "string list" | Failed nat

text \<open>\<^verbatim>\<open>name=value\<close>: an equals sign cannot be first.\<close>

definition split_value :: "string \<Rightarrow> string \<times> string option" where
  "split_value name =
     (case name of
        [] \<Rightarrow> ([], None)
      | c # cs \<Rightarrow>
          if CHR ''='' \<in> set cs
          then (c # takeWhile (\<lambda>x. x \<noteq> CHR ''='') cs,
                Some (tl (dropWhile (\<lambda>x. x \<noteq> CHR ''='') cs)))
          else (name, None))"

definition parseOne :: "FlagSet \<Rightarrow> string list \<Rightarrow> parsed" where
  "parseOne formal args =
     (case args of
        [] \<Rightarrow> Done []
      | s # rest \<Rightarrow>
          if length s < 2 \<or> s ! 0 \<noteq> CHR ''-'' then Done args
          else if s = ''--'' then Done rest
          else
            let name0 = (if s ! 1 = CHR ''-'' then drop 2 s else drop 1 s) in
            if name0 = [] \<or> hd name0 = CHR ''-'' \<or> hd name0 = CHR ''='' then Failed 2
            else
              let (name, val) = split_value name0 in
              (case formal name of
                 None \<Rightarrow> if name = ''help'' \<or> name = ''h'' then Failed 0 else Failed 2
               | Some _ \<Rightarrow>
                   (case val of
                      Some v \<Rightarrow> Seen (formal(name \<mapsto> v)) rest
                    | None \<Rightarrow>
                        (case rest of
                           [] \<Rightarrow> Failed 2
                         | v # rest' \<Rightarrow> Seen (formal(name \<mapsto> v)) rest'))))"

lemma parseOne_Seen: "parseOne formal args = Seen formal' args' \<Longrightarrow> length args' < length args"
  by (auto simp: parseOne_def Let_def split: list.splits if_splits option.splits prod.splits)

text \<open>\<^verbatim>\<open>flag.Parse()\<close>: the flag set after the parse, or the exit status.\<close>

function flag_Parse :: "FlagSet \<Rightarrow> string list \<Rightarrow> nat + FlagSet" where
  "flag_Parse formal args =
     (case parseOne formal args of
        Seen formal' args' \<Rightarrow> flag_Parse formal' args'
      | Done _ \<Rightarrow> Inr formal
      | Failed status \<Rightarrow> Inl status)"
  by pat_completeness auto
termination
  by (relation "measure (\<lambda>(formal, args). length args)") (auto dest: parseOne_Seen)

declare flag_Parse.simps [simp del]

subsection \<open>\<^verbatim>\<open>path/filepath\<close> on Unix: \<^verbatim>\<open>Clean\<close>, \<^verbatim>\<open>Join\<close>, \<^verbatim>\<open>Dir\<close>\<close>

definition Separator :: char where
  "Separator = CHR ''/''"

text \<open>The elements of a path: the parts between separators, empty ones included.\<close>

fun elements :: "string \<Rightarrow> string list" where
  "elements [] = [[]]"
| "elements (c # cs) =
     (if c = Separator then [] # elements cs
      else (case elements cs of [] \<Rightarrow> [[c]] | e # es \<Rightarrow> (c # e) # es))"

fun join_elements :: "string list \<Rightarrow> string" where
  "join_elements [] = []"
| "join_elements [e] = e"
| "join_elements (e # es) = e @ Separator # join_elements es"

text \<open>
  \<^verbatim>\<open>Clean\<close> works on the elements from left to right: an empty element and \<^verbatim>\<open>.\<close> are
  dropped; \<^verbatim>\<open>..\<close> removes the element before it, unless there is none to remove, where it
  is kept in a relative path and dropped in a rooted one. The empty result is \<^verbatim>\<open>.\<close>.
\<close>

definition clean_step :: "bool \<Rightarrow> string list \<Rightarrow> string \<Rightarrow> string list" where
  "clean_step rooted out e =
     (if e = [] \<or> e = ''.'' then out
      else if e = ''..'' then
        (if out \<noteq> [] \<and> last out \<noteq> ''..'' then butlast out
         else if rooted then out
         else out @ [''..''])
      else out @ [e])"

definition Clean :: "string \<Rightarrow> string" where
  "Clean path =
     (case path of
        [] \<Rightarrow> ''.''
      | c # _ \<Rightarrow>
          let rooted = (c = Separator);
              out = foldl (clean_step rooted) [] (elements path)
          in if rooted then Separator # join_elements out
             else if out = [] then ''.''
             else join_elements out)"

text \<open>\<^verbatim>\<open>Join\<close> ignores leading empty elements, joins the others and cleans the result.\<close>

definition Join :: "string list \<Rightarrow> string" where
  "Join elem =
     (case dropWhile (\<lambda>e. e = []) elem of
        [] \<Rightarrow> []
      | es \<Rightarrow> Clean (join_elements es))"

text \<open>\<^verbatim>\<open>Dir\<close> cleans what stands before the last element.\<close>

definition Dir :: "string \<Rightarrow> string" where
  "Dir path = Clean (rev (dropWhile (\<lambda>c. c \<noteq> Separator) (rev path)))"

subsection \<open>The file system: \<^verbatim>\<open>os.MkdirAll\<close> and \<^verbatim>\<open>os.WriteFile\<close>\<close>

text \<open>
  A file system maps an absolute path, the list of its elements from the root, to a
  directory or to a regular file with its content; the root is a directory. A path string is
  resolved from the working directory. The paths \<^verbatim>\<open>main\<close> passes are results of
  \<^verbatim>\<open>Join\<close> and \<^verbatim>\<open>Dir\<close>, in which \<^verbatim>\<open>..\<close> only leads.

  The model covers the structure of the tree: an operation fails where a directory is needed
  and a regular file stands, where a regular file is needed and a directory stands, or where
  a name is missing. Permissions, symbolic links, limits on name length and on space are not
  modelled.
\<close>

datatype node = Directory | Regular string

type_synonym filesystem = "string list \<rightharpoonup> node"

datatype errno = ENOENT | EEXIST | ENOTDIR | EISDIR

datatype oserror = PathError string string errno

definition node_at :: "filesystem \<Rightarrow> string list \<Rightarrow> node option" where
  "node_at fs p = (if p = [] then Some Directory else fs p)"

definition resolve_step :: "string list \<Rightarrow> string \<Rightarrow> string list" where
  "resolve_step p e =
     (if e = [] \<or> e = ''.'' then p else if e = ''..'' then butlast p else p @ [e])"

definition resolve :: "string list \<Rightarrow> string \<Rightarrow> string list" where
  "resolve cwd path =
     foldl resolve_step (if path \<noteq> [] \<and> hd path = Separator then [] else cwd) (elements path)"

text \<open>\<^verbatim>\<open>os.Stat\<close>, as far as its callers look: the node, or the error.\<close>

definition Stat :: "string list \<Rightarrow> filesystem \<Rightarrow> string \<Rightarrow> errno + node" where
  "Stat cwd fs name =
     (if name = [] then Inl ENOENT
      else (case node_at fs (resolve cwd name) of
              None \<Rightarrow> Inl ENOENT
            | Some n \<Rightarrow> Inr n))"

text \<open>\<^verbatim>\<open>os.Mkdir\<close>: the parent must be a directory and the name must be free.\<close>

definition Mkdir :: "string list \<Rightarrow> filesystem \<Rightarrow> string \<Rightarrow> oserror option \<times> filesystem" where
  "Mkdir cwd fs name =
     (let p = resolve cwd name in
      if name = [] then (Some (PathError ''mkdir'' name ENOENT), fs)
      else (case node_at fs p of
              Some _ \<Rightarrow> (Some (PathError ''mkdir'' name EEXIST), fs)
            | None \<Rightarrow>
                (case node_at fs (butlast p) of
                   Some Directory \<Rightarrow> (None, fs(p \<mapsto> Directory))
                 | Some (Regular _) \<Rightarrow> (Some (PathError ''mkdir'' name ENOTDIR), fs)
                 | None \<Rightarrow> (Some (PathError ''mkdir'' name ENOENT), fs))))"

text \<open>
  \<^verbatim>\<open>os.MkdirAll\<close>: if the path is there, it must be a directory. Otherwise the parent
  (the path without trailing separators and without its last element) is made first, and
  then the path itself.
\<close>

definition parent_len :: "string \<Rightarrow> nat" where
  "parent_len path =
     length (dropWhile (\<lambda>c. c \<noteq> Separator) (dropWhile (\<lambda>c. c = Separator) (rev path)))"

lemma parent_len_le: "parent_len path \<le> length path"
proof -
  have "parent_len path \<le> length (dropWhile (\<lambda>c. c = Separator) (rev path))"
    unfolding parent_len_def by (rule length_dropWhile_le)
  also have "\<dots> \<le> length (rev path)"
    by (rule length_dropWhile_le)
  finally show ?thesis by simp
qed

function MkdirAll :: "string list \<Rightarrow> filesystem \<Rightarrow> string \<Rightarrow> oserror option \<times> filesystem" where
  "MkdirAll cwd fs path =
     (case Stat cwd fs path of
        Inr Directory \<Rightarrow> (None, fs)
      | Inr (Regular _) \<Rightarrow> (Some (PathError ''mkdir'' path ENOTDIR), fs)
      | Inl _ \<Rightarrow>
          let j = parent_len path;
              (err, fs1) = (if 1 < j then MkdirAll cwd fs (take (j - 1) path) else (None, fs))
          in (case err of
                Some e \<Rightarrow> (Some e, fs1)
              | None \<Rightarrow>
                  (case Mkdir cwd fs1 path of
                     (None, fs2) \<Rightarrow> (None, fs2)
                   | (Some e, fs2) \<Rightarrow>
                       (case Stat cwd fs2 path of
                          Inr Directory \<Rightarrow> (None, fs2)
                        | _ \<Rightarrow> (Some e, fs2)))))"
  by pat_completeness auto
termination
proof (relation "measure (\<lambda>(cwd, fs, path). length path)", goal_cases)
  case (2 cwd fs path e j)
  with parent_len_le [of path] show ?case by auto
qed auto

declare MkdirAll.simps [simp del]

text \<open>
  \<^verbatim>\<open>os.WriteFile\<close> opens the file for writing, creating it if it is absent and
  truncating it if it is present, and writes the data.
\<close>

definition WriteFile ::
  "string list \<Rightarrow> filesystem \<Rightarrow> string \<Rightarrow> string \<Rightarrow> oserror option \<times> filesystem" where
  "WriteFile cwd fs name data =
     (let p = resolve cwd name in
      if name = [] then (Some (PathError ''open'' name ENOENT), fs)
      else (case node_at fs p of
              Some Directory \<Rightarrow> (Some (PathError ''open'' name EISDIR), fs)
            | Some (Regular _) \<Rightarrow> (None, fs(p \<mapsto> Regular data))
            | None \<Rightarrow>
                (case node_at fs (butlast p) of
                   Some Directory \<Rightarrow> (None, fs(p \<mapsto> Regular data))
                 | Some (Regular _) \<Rightarrow> (Some (PathError ''open'' name ENOTDIR), fs)
                 | None \<Rightarrow> (Some (PathError ''open'' name ENOENT), fs))))"

text \<open>The text of an error, as \<^verbatim>\<open>%v\<close> prints it.\<close>

definition errno_Error :: "errno \<Rightarrow> string" where
  "errno_Error e =
     (case e of
        ENOENT \<Rightarrow> ''no such file or directory''
      | EEXIST \<Rightarrow> ''file exists''
      | ENOTDIR \<Rightarrow> ''not a directory''
      | EISDIR \<Rightarrow> ''is a directory'')"

definition Error :: "oserror \<Rightarrow> string" where
  "Error err = (case err of PathError op path e \<Rightarrow> op @ '' '' @ path @ '': '' @ errno_Error e)"

subsection \<open>The world of the program\<close>

text \<open>
  What \<^verbatim>\<open>main\<close> does to its surroundings is recorded in order: what it writes to
  standard output, the calls to the generative-AI client, the read of standard input, and
  the two file-system calls with their results.
\<close>

datatype event =
    Stdout string
  | NewClient string
  | ScanStdin
  | GenerateContent string string
  | CallMkdirAll string "oserror option"
  | CallWriteFile string string "oserror option"

record world =
  fs :: filesystem
  cwd :: "string list"
  trace :: "event list"

definition log_event :: "event \<Rightarrow> world \<Rightarrow> world" where
  "log_event ev w = w\<lparr>trace := trace w @ [ev]\<rparr>"

definition Print :: "string \<Rightarrow> world \<Rightarrow> world" where
  "Print s w = log_event (Stdout s) w"

definition Println :: "string \<Rightarrow> world \<Rightarrow> world" where
  "Println s w = Print (s @ ''\<newline>'') w"

definition os_MkdirAll :: "string \<Rightarrow> world \<Rightarrow> oserror option \<times> world" where
  "os_MkdirAll path w =
     (case MkdirAll (cwd w) (fs w) path of
        (err, fs') \<Rightarrow> (err, log_event (CallMkdirAll path err) (w\<lparr>fs := fs'\<rparr>)))"

definition os_WriteFile :: "string \<Rightarrow> string \<Rightarrow> world \<Rightarrow> oserror option \<times> world" where
  "os_WriteFile name data w =
     (case WriteFile (cwd w) (fs w) name data of
        (err, fs') \<Rightarrow> (err, log_event (CallWriteFile name data err) (w\<lparr>fs := fs'\<rparr>)))"

text \<open>\<^verbatim>\<open>%d\<close> of a length or an index.\<close>

function itoa :: "nat \<Rightarrow> string" where
  "itoa n = (if n < 10 then [chr (0x30 + n)] else itoa (n div 10) @ [chr (0x30 + n mod 10)])"
  by pat_completeness auto
termination
  by (relation "measure id") auto

declare itoa.simps [simp del]

text \<open>
  What the program is given: the command line after the program name, the line that
  \<^verbatim>\<open>scanner.Text()\<close> returns, and the answers of the two libraries outside the
  repository. \<^verbatim>\<open>genai.NewClient\<close> returns an error or a client;
  \<^verbatim>\<open>GenerateContent\<close> returns, for an instruction, an error or the candidates; a
  candidate's \<^verbatim>\<open>Content\<close> is a pointer, \<open>None\<close> when nil, to its parts; a part is a
  \<^verbatim>\<open>genai.Text\<close> or a value of another type. \<^verbatim>\<open>json.MarshalIndent\<close> of a part, used
  for display only, is taken as given.
\<close>

datatype part = Text string | OtherPart

record env =
  Args :: "string list"
  NewClient_result :: "string option"
  scanner_Text :: string
  GenerateContent_result :: "string \<Rightarrow> string + part list option list"
  MarshalIndent_result :: "part \<Rightarrow> string + string"

datatype outcome = Returned | Exit nat | Panicked

subsection \<open>\<^verbatim>\<open>main\<close>, lines 103 to 136: writing the files\<close>

text \<open>The body of the loop, lines 118 to 132; \<open>i\<close> is the index of the record.\<close>

definition write_file :: "string \<Rightarrow> nat \<Rightarrow> File \<Rightarrow> world \<Rightarrow> world" where
  "write_file outputDir i file w =
     (let fullPath = Join [outputDir, Name file];
          dir = Dir fullPath
      in case os_MkdirAll dir w of
           (Some err, w1) \<Rightarrow>
             Print (''Error creating directory for '' @ Name file @ '': '' @ Error err
                      @ ''\<newline>'') w1
         | (None, w1) \<Rightarrow>
             (case os_WriteFile fullPath (Code file) w1 of
                (Some err, w2) \<Rightarrow>
                  Print (''Error writing file '' @ Name file @ '': '' @ Error err
                           @ ''\<newline>'') w2
              | (None, w2) \<Rightarrow>
                  Print (''\<newline>File '' @ itoa (i + 1) @ '': '' @ Name file @ '' written to ''
                           @ fullPath @ ''\<newline>'') w2))"

text \<open>The loop, lines 117 to 133.\<close>

fun write_files :: "string \<Rightarrow> nat \<Rightarrow> File list \<Rightarrow> world \<Rightarrow> world" where
  "write_files outputDir i [] w = w"
| "write_files outputDir i (file # files) w =
     write_files outputDir (i + 1) files (write_file outputDir i file w)"

text \<open>The branch of a successful parse, lines 108 to 135.\<close>

definition write_output :: "string \<Rightarrow> File list \<Rightarrow> world \<Rightarrow> outcome \<times> world" where
  "write_output outputDir files w =
     (let w1 = Print (''\<newline>Successfully parsed '' @ itoa (length files) @ '' file(s)\<newline>'') w
      in case os_MkdirAll outputDir w1 of
           (Some err, w2) \<Rightarrow>
             (Returned, Print (''Error creating output directory: '' @ Error err @ ''\<newline>'') w2)
         | (None, w2) \<Rightarrow>
             (Returned,
              Print (''\<newline>All files have been written to the '' @ [CHR 0x27] @ outputDir
                       @ [CHR 0x27] @ '' directory\<newline>'')
                (write_files outputDir 0 files w2)))"

text \<open>
  Lines 103 to 136: the type assertion \<^verbatim>\<open>responseData.(genai.Text)\<close> panics on a part of
  another type; the text is trimmed and decoded; on an error of \<^verbatim>\<open>json.Unmarshal\<close>
  nothing more is done.
\<close>

definition materialize :: "string \<Rightarrow> part \<Rightarrow> world \<Rightarrow> outcome \<times> world" where
  "materialize outputDir responseData w =
     (case responseData of
        OtherPart \<Rightarrow> (Panicked, w)
      | Text jsonData \<Rightarrow>
          let jsonString = TrimSpace jsonData
          in case Unmarshal jsonString of
               None \<Rightarrow> (Returned, w)
             | Some files \<Rightarrow> write_output outputDir files w)"

subsection \<open>\<^verbatim>\<open>main\<close>, lines 31 to 101: the request\<close>

text \<open>Line 73.\<close>

definition instruction :: "string \<Rightarrow> string" where
  "instruction prompt =
     ''Based on the following request, generate the necessary code files:''
       @ ''\<newline>\<newline>'' @ prompt"

definition request :: "string \<Rightarrow> string \<Rightarrow> env \<Rightarrow> world \<Rightarrow> outcome \<times> world" where
  "request outputDir apiKey e w =
     (let w1 = log_event (NewClient apiKey) w
      in case NewClient_result e of
           Some err \<Rightarrow> (Returned, Print (''Error creating client: '' @ err @ ''\<newline>'') w1)
         | None \<Rightarrow>
             let modelName = ''gemini-2.0-flash'';
                 w2 = log_event ScanStdin (Print ''Enter your prompt: '' w1);
                 prompt = scanner_Text e;
                 instructionPrompt = instruction prompt;
                 w3 = log_event (GenerateContent modelName instructionPrompt) w2
             in case GenerateContent_result e instructionPrompt of
                  Inl err \<Rightarrow>
                    (Returned, Print (''Error generating content: '' @ err @ ''\<newline>'') w3)
                | Inr Candidates \<Rightarrow>
                    (case Candidates of
                       [] \<Rightarrow> (Returned, Println ''No response received'' w3)
                     | None # _ \<Rightarrow> (Panicked, w3)
                     | Some [] # _ \<Rightarrow> (Returned, Println ''No response received'' w3)
                     | Some (responseData # _) # _ \<Rightarrow>
                         (case MarshalIndent_result e responseData of
                            Inl err \<Rightarrow>
                              (Returned,
                               Print (''Error serializing response: '' @ err @ ''\<newline>'') w3)
                          | Inr prettyJSON \<Rightarrow>
                              materialize outputDir responseData
                                (Println prettyJSON (Println ''\<newline>API Response:'' w3)))))"

subsection \<open>\<^verbatim>\<open>main\<close>, lines 22 to 30: the flags\<close>

text \<open>
  The flag \<^verbatim>\<open>key\<close> is defined and the command line parsed. Then the flag \<^verbatim>\<open>output\<close>
  is defined and its variable read in the same statement (line 29), before the second
  parse (line 30).
\<close>

definition main :: "env \<Rightarrow> world \<Rightarrow> outcome \<times> world" where
  "main e w =
     (let apiKey = ''key'';
          formal1 = flag_String ''key'' [] Map.empty
      in case flag_Parse formal1 (Args e) of
           Inl status \<Rightarrow> (Exit status, w)
         | Inr formal2 \<Rightarrow>
             if deref formal2 apiKey = [] then (Returned, Println ''API key is required'' w)
             else
               let formal3 = flag_String ''output'' ''output'' formal2;
                   outputDir = deref formal3 ''output''
               in case flag_Parse formal3 (Args e) of
                    Inl status \<Rightarrow> (Exit status, w)
                  | Inr formal4 \<Rightarrow> request outputDir (deref formal4 apiKey) e w)"

section \<open>Properties\<close>

subsection \<open>Running the model on a concrete input\<close>

text \<open>
  The equations that evaluate the model, for the simplifier, and a small closed
  environment: a command line, the candidates that the client returns, no error from the
  libraries.
\<close>

named_theorems run

lemmas [run] =
  scan_string.simps emit_def unescape_def utf16_DecodeRune_def IsSurrogate_def getu4_def
  hex_val_def DecodeRune_def chr_eq_iff byte_def RuneSelf_def RuneError_def first_byte_def
  is_cont_def EncodeRune_def Let_def tokenize.simps cons_tok_def is_json_space_def
  is_digit_def scan_number_def scan_frac_def scan_exp_def parse_json_def end_value_def
  pushParseState_def begin_value_def close_array_def close_object_def begin_string_def
  maxNestingDepth_def TrimSpace_def TrimLeft.simps TrimRight.simps DecodeLastRune_def
  last_start.simps RuneStart_def IsSpace_def Unmarshal_def value_Files_def value_File_def
  zero_File_def store_string_def field_of_key_def foldName.simps foldRune_def
  flag_String_def deref_def parseOne_def split_value_def flag_Parse.simps Separator_def
  clean_step_def Clean_def Join_def Dir_def node_at_def resolve_step_def resolve_def
  Stat_def Mkdir_def parent_len_def MkdirAll.simps WriteFile_def errno_Error_def Error_def
  log_event_def Print_def Println_def os_MkdirAll_def os_WriteFile_def itoa.simps
  write_file_def write_output_def materialize_def instruction_def request_def main_def

definition demo_env :: "string list \<Rightarrow> part list option list \<Rightarrow> env" where
  "demo_env args candidates =
     \<lparr>Args = args, NewClient_result = None, scanner_Text = ''a prompt'',
      GenerateContent_result = (\<lambda>_. Inr candidates),
      MarshalIndent_result = (\<lambda>_. Inr ''{}'')\<rparr>"

definition empty_world :: world where
  "empty_world = \<lparr>fs = Map.empty, cwd = [], trace = []\<rparr>"

subsection \<open>The flags\<close>

text \<open>The value of \<^verbatim>\<open>*apiKey\<close> after the first \<^verbatim>\<open>flag.Parse()\<close>, or the exit status.\<close>

definition key_flag :: "string list \<Rightarrow> nat + string" where
  "key_flag args =
     (case flag_Parse (flag_String ''key'' [] Map.empty) args of
        Inl status \<Rightarrow> Inl status
      | Inr formal \<Rightarrow> Inr (deref formal ''key''))"

text \<open>
  A parse that succeeds with one flag set takes the same steps with a larger one. So the
  second parse of \<^verbatim>\<open>main\<close> succeeds whenever the first does, and it leaves the key
  as it was.
\<close>

definition set_flag :: "FlagSet \<Rightarrow> string \<Rightarrow> string option \<Rightarrow> string list \<Rightarrow> parsed" where
  "set_flag formal name val rest =
     (case formal name of
        None \<Rightarrow> if name = ''help'' \<or> name = ''h'' then Failed 0 else Failed 2
      | Some _ \<Rightarrow>
          (case val of
             Some v \<Rightarrow> Seen (formal(name \<mapsto> v)) rest
           | None \<Rightarrow>
               (case rest of
                  [] \<Rightarrow> Failed 2
                | v # rest' \<Rightarrow> Seen (formal(name \<mapsto> v)) rest')))"

lemma parseOne_unfold:
  "parseOne formal args =
     (case args of
        [] \<Rightarrow> Done []
      | s # rest \<Rightarrow>
          if length s < 2 \<or> s ! 0 \<noteq> CHR ''-'' then Done args
          else if s = ''--'' then Done rest
          else if (if s ! 1 = CHR ''-'' then drop 2 s else drop 1 s) = []
                  \<or> hd (if s ! 1 = CHR ''-'' then drop 2 s else drop 1 s) = CHR ''-''
                  \<or> hd (if s ! 1 = CHR ''-'' then drop 2 s else drop 1 s) = CHR ''=''
          then Failed 2
          else set_flag formal
                 (fst (split_value (if s ! 1 = CHR ''-'' then drop 2 s else drop 1 s)))
                 (snd (split_value (if s ! 1 = CHR ''-'' then drop 2 s else drop 1 s))) rest)"
  unfolding parseOne_def set_flag_def Let_def case_prod_beta ..

lemma set_flag_Seen_other:
  assumes "set_flag formal name val rest = Seen formal' args'" and "dom formal \<subseteq> dom g"
  shows "\<exists>v. name \<in> dom formal \<and> formal' = formal(name \<mapsto> v)
           \<and> set_flag g name val rest = Seen (g(name \<mapsto> v)) args'"
proof -
  from assms(1) obtain x where x: "formal name = Some x"
    by (cases "formal name") (auto simp: set_flag_def split: if_splits)
  with assms(2) obtain y where y: "g name = Some y"
    by (auto simp: dom_def)
  from assms(1) x y show ?thesis
    by (cases val; cases rest) (auto simp: set_flag_def)
qed

lemma parseOne_Seen_other:
  assumes "parseOne formal args = Seen formal' args'" and "dom formal \<subseteq> dom g"
  shows "\<exists>name v. name \<in> dom formal \<and> formal' = formal(name \<mapsto> v)
           \<and> parseOne g args = Seen (g(name \<mapsto> v)) args'"
proof (cases args)
  case Nil
  with assms(1) show ?thesis by (simp add: parseOne_unfold)
next
  case (Cons s rest)
  let ?n0 = "if s ! 1 = CHR ''-'' then drop 2 s else drop 1 s"
  let ?stop = "length s < 2 \<or> s ! 0 \<noteq> CHR ''-'' \<or> s = ''--'' \<or> ?n0 = []
                 \<or> hd ?n0 = CHR ''-'' \<or> hd ?n0 = CHR ''=''"
  show ?thesis
  proof (cases ?stop)
    case True
    with assms(1) Cons show ?thesis
      by (simp only: parseOne_unfold list.case split: if_splits) simp_all
  next
    case False
    with assms(1) Cons
    have "set_flag formal (fst (split_value ?n0)) (snd (split_value ?n0)) rest = Seen formal' args'"
      by (simp only: parseOne_unfold list.case split: if_splits) simp_all
    from set_flag_Seen_other [OF this assms(2)]
    obtain v where v: "fst (split_value ?n0) \<in> dom formal"
        "formal' = formal(fst (split_value ?n0) \<mapsto> v)"
        "set_flag g (fst (split_value ?n0)) (snd (split_value ?n0)) rest
           = Seen (g(fst (split_value ?n0) \<mapsto> v)) args'"
      by blast
    from False Cons v(3)
    have "parseOne g args = Seen (g(fst (split_value ?n0) \<mapsto> v)) args'"
      by (simp add: parseOne_unfold)
    with v(1,2) show ?thesis
      by blast
  qed
qed

lemma parseOne_Done_other:
  assumes "parseOne formal args = Done a"
  shows "parseOne g args = Done a"
proof (cases args)
  case Nil
  with assms(1) show ?thesis by (simp add: parseOne_unfold)
next
  case (Cons s rest)
  have nd: "\<And>f n v r. set_flag f n v r \<noteq> Done a"
    by (auto simp: set_flag_def split: option.splits list.splits)
  from assms Cons nd show ?thesis
    by (simp only: parseOne_unfold list.case split: if_splits) simp_all
qed

lemma flag_Parse_other:
  "flag_Parse formal args = Inr f \<Longrightarrow> dom formal \<subseteq> dom g \<Longrightarrow>
     \<exists>u. f = formal ++ u \<and> flag_Parse g args = Inr (g ++ u)"
proof (induction formal args arbitrary: g rule: flag_Parse.induct)
  case (1 formal args)
  show ?case
  proof (cases "parseOne formal args")
    case (Seen formal' args')
    from parseOne_Seen_other [OF Seen "1.prems"(2)]
    obtain name v where nv: "name \<in> dom formal" "formal' = formal(name \<mapsto> v)"
        "parseOne g args = Seen (g(name \<mapsto> v)) args'"
      by blast
    from "1.prems"(1) Seen have "flag_Parse formal' args' = Inr f"
      by (subst (asm) flag_Parse.simps) simp
    moreover from nv(2) "1.prems"(2) have "dom formal' \<subseteq> dom (g(name \<mapsto> v))"
      by auto
    ultimately obtain u where u: "f = formal' ++ u"
        "flag_Parse (g(name \<mapsto> v)) args' = Inr (g(name \<mapsto> v) ++ u)"
      using "1.IH" [OF Seen] by blast
    have "f = formal ++ ([name \<mapsto> v] ++ u)"
      using u(1) nv(2) by (simp add: map_add_assoc [symmetric] map_add_upd_left)
    moreover have "flag_Parse g args = Inr (g ++ ([name \<mapsto> v] ++ u))"
      using u(2) nv(3) by (subst flag_Parse.simps) (simp add: map_add_assoc [symmetric])
    ultimately show ?thesis
      by blast
  next
    case (Done a)
    from "1.prems"(1) Done have "f = formal ++ Map.empty"
      by (subst (asm) flag_Parse.simps) simp
    moreover from parseOne_Done_other [OF Done, of g]
    have "flag_Parse g args = Inr (g ++ Map.empty)"
      by (subst flag_Parse.simps) simp
    ultimately show ?thesis
      by blast
  next
    case (Failed st)
    with "1.prems"(1) show ?thesis
      by (subst (asm) flag_Parse.simps) simp
  qed
qed

lemma parseOne_dom: "parseOne formal args = Seen f a \<Longrightarrow> dom f = dom formal"
proof -
  assume "parseOne formal args = Seen f a"
  from parseOne_Seen_other [OF this subset_refl]
  obtain name v where "name \<in> dom formal" "f = formal(name \<mapsto> v)"
    by blast
  then show ?thesis
    by (simp add: insert_absorb)
qed

lemma flag_Parse_dom:
  "flag_Parse formal args = Inr f \<Longrightarrow> dom f = dom formal"
proof (induction formal args rule: flag_Parse.induct)
  case (1 formal args)
  show ?case
  proof (cases "parseOne formal args")
    case (Seen f' a')
    from "1.prems"(1) Seen have "flag_Parse f' a' = Inr f"
      by (subst (asm) flag_Parse.simps) simp
    from "1.IH" [OF Seen this] parseOne_dom [OF Seen] show ?thesis by simp
  next
    case (Done a)
    with "1.prems" show ?thesis by (subst (asm) flag_Parse.simps) simp
  next
    case (Failed st)
    with "1.prems" show ?thesis by (subst (asm) flag_Parse.simps) simp
  qed
qed

text \<open>
  Whatever the command line, a run that goes on after the flags has the output directory
  \<^verbatim>\<open>output\<close>.
\<close>

lemma main_flags:
  assumes "key_flag (Args e) = Inr k" and "k \<noteq> []"
  shows "main e w = request ''output'' k e w"
proof -
  let ?formal1 = "flag_String ''key'' [] Map.empty"
  from assms(1) obtain f where f: "flag_Parse ?formal1 (Args e) = Inr f"
    and k: "deref f ''key'' = k"
    by (auto simp: key_flag_def split: sum.splits)
  let ?formal3 = "flag_String ''output'' ''output'' f"
  from flag_Parse_dom [OF f] have df: "dom f = {''key''}"
    by (simp add: flag_String_def)
  then have "dom ?formal1 \<subseteq> dom ?formal3"
    by (simp add: flag_String_def)
  from flag_Parse_other [OF f this]
  obtain u where u: "f = ?formal1 ++ u" "flag_Parse ?formal3 (Args e) = Inr (?formal3 ++ u)"
    by blast
  have out: "deref ?formal3 ''output'' = ''output''"
    by (simp add: deref_def flag_String_def)
  have "f ''key'' = (?formal1 ++ u) ''key''"
    using u(1) by simp
  then have "(?formal3 ++ u) ''key'' = f ''key''"
    by (simp add: flag_String_def map_add_def split: option.splits)
  then have key: "deref (?formal3 ++ u) ''key'' = k"
    using k by (simp add: deref_def)
  from assms(2) k have ne: "deref f ''key'' \<noteq> []"
    by simp
  show ?thesis
    unfolding main_def Let_def
    by (simp only: f u(2) out key ne sum.case if_False)
qed

text \<open>
  \<^bold>\<open>C9\<close> (as amended). When the flag package accepts the command line and the key is empty
  or absent, \<^verbatim>\<open>main\<close> prints \<^verbatim>\<open>API key is required\<close> and returns; nothing else
  happens: no client, no request, no file. When the flag package rejects the command line,
  the process exits with its status inside \<^verbatim>\<open>flag.Parse\<close>, and nothing at all has
  happened.
\<close>

theorem api_key_required:
  "(key_flag (Args e) = Inr [] \<longrightarrow>
      main e w = (Returned, w\<lparr>trace := trace w @ [Stdout ''API key is required\<newline>'']\<rparr>))
   \<and> (\<forall>status. key_flag (Args e) = Inl status \<longrightarrow> main e w = (Exit status, w))"
  by (auto simp: key_flag_def main_def Let_def Println_def Print_def log_event_def
           split: sum.splits)

theorem api_key_required_witness:
  "key_flag [''-key'', []] = Inr []
   \<and> main (demo_env [''-key'', []] []) empty_world
       = (Returned, empty_world\<lparr>trace := [Stdout ''API key is required\<newline>'']\<rparr>)
   \<and> key_flag [''-key''] = Inl 2
   \<and> main (demo_env [''-key''] []) empty_world = (Exit 2, empty_world)"
proof -
  have h1: "key_flag (Args (demo_env [''-key'', []] [])) = Inr []"
    by (simp add: key_flag_def demo_env_def run)
  have h2: "key_flag (Args (demo_env [''-key''] [])) = Inl 2"
    by (simp add: key_flag_def demo_env_def run)
  from api_key_required [of "demo_env [''-key'', []] []" empty_world] h1
  have "main (demo_env [''-key'', []] []) empty_world
          = (Returned, empty_world\<lparr>trace := [Stdout ''API key is required\<newline>'']\<rparr>)"
    by (simp add: empty_world_def)
  moreover from api_key_required [of "demo_env [''-key''] []" empty_world] h2
  have "main (demo_env [''-key''] []) empty_world = (Exit 2, empty_world)"
    by blast
  ultimately show ?thesis
    using h1 h2 by (simp add: demo_env_def)
qed

text \<open>
  C9 as stated fails: with the command line \<^verbatim>\<open>-h\<close> the key is absent, and the process
  exits with status 0 in \<^verbatim>\<open>flag.Parse\<close> without having printed the message.
\<close>

theorem api_key_message_counterexample:
  "main (demo_env [''-h''] []) empty_world = (Exit 0, empty_world)
   \<and> trace empty_world = []"
  by (simp add: demo_env_def empty_world_def run)

text \<open>
  \<^bold>\<open>C4\<close>. A command line that supplies \<^verbatim>\<open>-output\<close> after the key is rejected by the
  first parse, where only \<^verbatim>\<open>key\<close> is defined: the process exits with status 2.
\<close>

theorem output_flag_is_rejected:
  "main (e\<lparr>Args := [''-key'', ''K'', ''-output'', ''dir'']\<rparr>) w = (Exit 2, w)"
  by (simp add: run)

subsection \<open>The file system calls\<close>

text \<open>
  \<^verbatim>\<open>MkdirAll\<close> and \<^verbatim>\<open>WriteFile\<close> never remove a node: \<^verbatim>\<open>MkdirAll\<close> only adds
  directories where nothing was, \<^verbatim>\<open>WriteFile\<close> only touches the node at its path.
\<close>

lemma Stat_Inr: "Stat wd fsys name = Inr n \<Longrightarrow> node_at fsys (resolve wd name) = Some n"
  by (auto simp: Stat_def split: if_splits option.splits)

lemma Mkdir_keeps: "node_at fsys q = Some n \<Longrightarrow> node_at (snd (Mkdir wd fsys name)) q = Some n"
  by (auto simp: Mkdir_def Let_def node_at_def split: option.splits node.splits)

lemma Mkdir_None:
  "fst (Mkdir wd fsys name) = None \<Longrightarrow>
     node_at (snd (Mkdir wd fsys name)) (resolve wd name) = Some Directory"
  by (auto simp: Mkdir_def Let_def node_at_def split: option.splits node.splits if_splits)

definition parent_result :: "string list \<Rightarrow> filesystem \<Rightarrow> string \<Rightarrow> oserror option \<times> filesystem" where
  "parent_result wd fsys path =
     (if 1 < parent_len path then MkdirAll wd fsys (take (parent_len path - 1) path)
      else (None, fsys))"

lemma MkdirAll_result:
  "(Stat wd fsys path = Inr Directory \<and> MkdirAll wd fsys path = (None, fsys))
   \<or> ((\<exists>d. Stat wd fsys path = Inr (Regular d))
        \<and> MkdirAll wd fsys path = (Some (PathError ''mkdir'' path ENOTDIR), fsys))
   \<or> ((\<exists>e. Stat wd fsys path = Inl e)
        \<and> (\<exists>e1. fst (parent_result wd fsys path) = Some e1
              \<and> MkdirAll wd fsys path = (Some e1, snd (parent_result wd fsys path))))
   \<or> ((\<exists>e. Stat wd fsys path = Inl e)
        \<and> fst (parent_result wd fsys path) = None
        \<and> fst (Mkdir wd (snd (parent_result wd fsys path)) path) = None
        \<and> MkdirAll wd fsys path = (None, snd (Mkdir wd (snd (parent_result wd fsys path)) path)))
   \<or> ((\<exists>e. Stat wd fsys path = Inl e)
        \<and> fst (parent_result wd fsys path) = None
        \<and> Stat wd (snd (Mkdir wd (snd (parent_result wd fsys path)) path)) path = Inr Directory
        \<and> MkdirAll wd fsys path = (None, snd (Mkdir wd (snd (parent_result wd fsys path)) path)))
   \<or> ((\<exists>e. Stat wd fsys path = Inl e)
        \<and> fst (parent_result wd fsys path) = None
        \<and> (\<exists>e2. MkdirAll wd fsys path
                   = (Some e2, snd (Mkdir wd (snd (parent_result wd fsys path)) path))))"
  using MkdirAll.simps [of wd fsys path]
  unfolding parent_result_def [symmetric] Let_def case_prod_beta
  by (cases "Stat wd fsys path"; cases "fst (parent_result wd fsys path)";
      cases "fst (Mkdir wd (snd (parent_result wd fsys path)) path)";
      cases "Stat wd (snd (Mkdir wd (snd (parent_result wd fsys path)) path)) path")
     (auto split: node.splits prod.splits)


lemma MkdirAll_keeps:
  "node_at fsys q = Some n \<Longrightarrow> node_at (snd (MkdirAll wd fsys path)) q = Some n"
proof (induction wd fsys path rule: MkdirAll.induct)
  case (1 wd fsys path)
  have keep1: "node_at (snd (parent_result wd fsys path)) q = Some n"
    if "Stat wd fsys path = Inl e" for e
  proof (cases "1 < parent_len path")
    case False
    with "1.prems" show ?thesis by (simp add: parent_result_def)
  next
    case True
    from "1.IH" [OF that refl True "1.prems"] True show ?thesis
      by (simp add: parent_result_def)
  qed
  from MkdirAll_result [of wd fsys path] show ?case
    using "1.prems" keep1 Mkdir_keeps [of "snd (parent_result wd fsys path)" q n wd path]
    by (elim disjE conjE exE) simp_all
qed

lemma MkdirAll_None:
  "fst (MkdirAll wd fsys path) = None \<Longrightarrow>
     node_at (snd (MkdirAll wd fsys path)) (resolve wd path) = Some Directory"
  using MkdirAll_result [of wd fsys path]
    Mkdir_None [of wd "snd (parent_result wd fsys path)" path]
  by (elim disjE conjE exE) (auto dest: Stat_Inr)

lemma WriteFile_None:
  "fst (WriteFile wd fsys name data) = None \<Longrightarrow>
     node_at (snd (WriteFile wd fsys name data)) (resolve wd name) = Some (Regular data)"
  by (auto simp: WriteFile_def Let_def node_at_def split: option.splits node.splits if_splits)

lemma WriteFile_other:
  "q \<noteq> resolve wd name \<Longrightarrow> node_at (snd (WriteFile wd fsys name data)) q = node_at fsys q"
  by (auto simp: WriteFile_def Let_def node_at_def split: option.splits node.splits)

lemma WriteFile_Directory:
  "node_at fsys q = Some Directory \<Longrightarrow>
     node_at (snd (WriteFile wd fsys name data)) q = Some Directory"
  by (auto simp: WriteFile_def Let_def node_at_def split: option.splits node.splits)

text \<open>The shape of a tree: whatever is there stands in a directory.\<close>

definition tree :: "filesystem \<Rightarrow> bool" where
  "tree fsys = (\<forall>p. p \<noteq> [] \<longrightarrow> fsys p \<noteq> None \<longrightarrow> node_at fsys (butlast p) = Some Directory)"

lemma tree_upd:
  assumes "tree fsys" and "p \<noteq> []" and "node_at fsys (butlast p) = Some Directory"
    and "fsys p \<noteq> Some Directory \<or> n = Directory"
  shows "tree (fsys(p \<mapsto> n))"
  unfolding tree_def
proof (intro allI impI)
  fix q :: "string list"
  assume q: "q \<noteq> []" "(fsys(p \<mapsto> n)) q \<noteq> None"
  from assms(2) have bp: "butlast p \<noteq> p"
    by (metis length_butlast diff_less length_greater_0_conv less_numeral_extra(1) less_irrefl)
  show "node_at (fsys(p \<mapsto> n)) (butlast q) = Some Directory"
  proof (cases "q = p")
    case True
    with assms(3) bp show ?thesis
      by (auto simp: node_at_def)
  next
    case False
    with q assms(1) have d: "node_at fsys (butlast q) = Some Directory"
      by (simp add: tree_def)
    show ?thesis
    proof (cases "butlast q = p")
      case True
      with d assms(2,4) show ?thesis
        by (auto simp: node_at_def)
    next
      case False
      with d show ?thesis
        by (auto simp: node_at_def)
    qed
  qed
qed

lemma tree_Mkdir: "tree fsys \<Longrightarrow> tree (snd (Mkdir wd fsys name))"
  using tree_upd [of fsys "resolve wd name" Directory]
  by (auto simp: Mkdir_def Let_def node_at_def split: option.splits node.splits if_splits)

lemma tree_WriteFile: "tree fsys \<Longrightarrow> tree (snd (WriteFile wd fsys name data))"
proof -
  assume t: "tree fsys"
  let ?p = "resolve wd name"
  have "tree (fsys(?p \<mapsto> Regular data))"
    if "?p \<noteq> []" "fsys ?p \<noteq> Some Directory"
       "fsys ?p \<noteq> None \<or> node_at fsys (butlast ?p) = Some Directory"
  proof -
    from that t have "node_at fsys (butlast ?p) = Some Directory"
      by (auto simp: tree_def)
    from tree_upd [OF t that(1) this] that(2) show ?thesis
      by simp
  qed
  with t show ?thesis
    by (auto simp: WriteFile_def Let_def node_at_def split: option.splits node.splits if_splits)
qed

lemma tree_MkdirAll: "tree fsys \<Longrightarrow> tree (snd (MkdirAll wd fsys path))"
proof (induction wd fsys path rule: MkdirAll.induct)
  case (1 wd fsys path)
  have t1: "tree (snd (parent_result wd fsys path))"
    if "Stat wd fsys path = Inl e" for e
  proof (cases "1 < parent_len path")
    case False
    with "1.prems" show ?thesis by (simp add: parent_result_def)
  next
    case True
    from "1.IH" [OF that refl True "1.prems"] True show ?thesis
      by (simp add: parent_result_def)
  qed
  from MkdirAll_result [of wd fsys path] show ?case
    using "1.prems" t1 tree_Mkdir [of "snd (parent_result wd fsys path)" wd path]
    by (elim disjE conjE exE) simp_all
qed

lemma tree_ancestors:
  "tree fsys \<Longrightarrow> fsys p \<noteq> None \<Longrightarrow> n < length p \<Longrightarrow> node_at fsys (take n p) = Some Directory"
proof (induction "length p - n" arbitrary: n)
  case 0
  then show ?case by simp
next
  case (Suc k)
  show ?case
  proof (cases "Suc n = length p")
    case True
    then have "n = length p - 1"
      by simp
    then have "take n p = butlast p"
      by (simp add: butlast_conv_take)
    moreover from Suc.prems have "p \<noteq> []" by auto
    ultimately show ?thesis
      using Suc.prems(1,2) by (simp add: tree_def)
  next
    case False
    with Suc.prems(3) have lt: "Suc n < length p" by simp
    from Suc.hyps(2) have "k = length p - Suc n" by simp
    from Suc.hyps(1) [OF this Suc.prems(1,2) lt]
    have d: "node_at fsys (take (Suc n) p) = Some Directory" .
    show ?thesis
    proof (cases "take (Suc n) p = []")
      case True
      with lt show ?thesis by (cases p) simp_all
    next
      case ne: False
      with d have "fsys (take (Suc n) p) \<noteq> None"
        by (simp add: node_at_def)
      with Suc.prems(1) ne have "node_at fsys (butlast (take (Suc n) p)) = Some Directory"
        by (simp add: tree_def)
      moreover from lt have "butlast (take (Suc n) p) = take n p"
        by (simp add: butlast_take)
      ultimately show ?thesis by simp
    qed
  qed
qed

subsection \<open>What a run did\<close>

text \<open>
  Read off the trace: the calls that failed, the files written (the successful
  \<^verbatim>\<open>WriteFile\<close> calls with path and content), the paths of the \<^verbatim>\<open>MkdirAll\<close> calls, and
  the lines on standard output.
\<close>

fun failed :: "event \<Rightarrow> bool" where
  "failed (CallMkdirAll path (Some err)) = True"
| "failed (CallWriteFile name data (Some err)) = True"
| "failed ev = False"

lemma failed_call [simp]:
  "failed (CallMkdirAll path r) = (r \<noteq> None)"
  "failed (CallWriteFile name data r) = (r \<noteq> None)"
  by (cases r; simp)+

definition failures :: "event list \<Rightarrow> event list" where
  "failures tr = filter failed tr"

definition writes :: "event list \<Rightarrow> (string \<times> string) list" where
  "writes tr =
     concat (map (\<lambda>ev. case ev of CallWriteFile name data None \<Rightarrow> [(name, data)] | _ \<Rightarrow> []) tr)"

definition mkdirs :: "event list \<Rightarrow> string list" where
  "mkdirs tr = concat (map (\<lambda>ev. case ev of CallMkdirAll path err \<Rightarrow> [path] | _ \<Rightarrow> []) tr)"

definition stdout :: "event list \<Rightarrow> string list" where
  "stdout tr = concat (map (\<lambda>ev. case ev of Stdout s \<Rightarrow> [s] | _ \<Rightarrow> []) tr)"

lemma observe_append [simp]:
  "failures (xs @ ys) = failures xs @ failures ys"
  "writes (xs @ ys) = writes xs @ writes ys"
  "mkdirs (xs @ ys) = mkdirs xs @ mkdirs ys"
  "stdout (xs @ ys) = stdout xs @ stdout ys"
  by (simp_all add: failures_def writes_def mkdirs_def stdout_def)

lemma observe_Nil [simp]:
  "failures [] = []" "writes [] = []" "mkdirs [] = []" "stdout [] = []"
  by (simp_all add: failures_def writes_def mkdirs_def stdout_def)

lemma observe_Cons [simp]:
  "failures (ev # tr) = (if failed ev then ev # failures tr else failures tr)"
  "writes (ev # tr)
     = (case ev of CallWriteFile name data None \<Rightarrow> [(name, data)] | _ \<Rightarrow> []) @ writes tr"
  "mkdirs (ev # tr) = (case ev of CallMkdirAll path err \<Rightarrow> [path] | _ \<Rightarrow> []) @ mkdirs tr"
  "stdout (ev # tr) = (case ev of Stdout s \<Rightarrow> [s] | _ \<Rightarrow> []) @ stdout tr"
  by (simp_all add: failures_def writes_def mkdirs_def stdout_def)

definition fullPath :: "string \<Rightarrow> File \<Rightarrow> string" where
  "fullPath outputDir file = Join [outputDir, Name file]"

definition target :: "string \<Rightarrow> File \<Rightarrow> string \<times> string" where
  "target outputDir file = (fullPath outputDir file, Code file)"

text \<open>The record is written when it is processed in the world \<open>w\<close>: both calls succeed.\<close>

definition written :: "string \<Rightarrow> File \<Rightarrow> world \<Rightarrow> bool" where
  "written outputDir file w =
     (fst (os_MkdirAll (Dir (fullPath outputDir file)) w) = None
      \<and> fst (os_WriteFile (fullPath outputDir file) (Code file)
                (snd (os_MkdirAll (Dir (fullPath outputDir file)) w))) = None)"

text \<open>The line a record leaves on standard output.\<close>

definition report :: "string \<Rightarrow> nat \<Rightarrow> File \<Rightarrow> world \<Rightarrow> string" where
  "report outputDir i file w =
     (case os_MkdirAll (Dir (fullPath outputDir file)) w of
        (Some err, w1) \<Rightarrow>
          ''Error creating directory for '' @ Name file @ '': '' @ Error err @ ''\<newline>''
      | (None, w1) \<Rightarrow>
          (case os_WriteFile (fullPath outputDir file) (Code file) w1 of
             (Some err, w2) \<Rightarrow>
               ''Error writing file '' @ Name file @ '': '' @ Error err @ ''\<newline>''
           | (None, w2) \<Rightarrow>
               ''\<newline>File '' @ itoa (i + 1) @ '': '' @ Name file @ '' written to ''
                 @ fullPath outputDir file @ ''\<newline>''))"

lemma os_MkdirAll_simps [simp]:
  "fst (os_MkdirAll path w) = fst (MkdirAll (cwd w) (fs w) path)"
  "fs (snd (os_MkdirAll path w)) = snd (MkdirAll (cwd w) (fs w) path)"
  "cwd (snd (os_MkdirAll path w)) = cwd w"
  "trace (snd (os_MkdirAll path w))
     = trace w @ [CallMkdirAll path (fst (MkdirAll (cwd w) (fs w) path))]"
  by (simp_all add: os_MkdirAll_def log_event_def split: prod.splits)

lemma os_WriteFile_simps [simp]:
  "fst (os_WriteFile name data w) = fst (WriteFile (cwd w) (fs w) name data)"
  "fs (snd (os_WriteFile name data w)) = snd (WriteFile (cwd w) (fs w) name data)"
  "cwd (snd (os_WriteFile name data w)) = cwd w"
  "trace (snd (os_WriteFile name data w))
     = trace w @ [CallWriteFile name data (fst (WriteFile (cwd w) (fs w) name data))]"
  by (simp_all add: os_WriteFile_def log_event_def split: prod.splits)

lemma Print_simps [simp]:
  "fs (Print s w) = fs w" "cwd (Print s w) = cwd w" "trace (Print s w) = trace w @ [Stdout s]"
  by (simp_all add: Print_def log_event_def)

text \<open>One pass of the loop body, in terms of the two calls.\<close>

lemma write_file_eq:
  "write_file outputDir i file w =
     Print (report outputDir i file w)
       (if fst (os_MkdirAll (Dir (fullPath outputDir file)) w) = None
        then snd (os_WriteFile (fullPath outputDir file) (Code file)
                    (snd (os_MkdirAll (Dir (fullPath outputDir file)) w)))
        else snd (os_MkdirAll (Dir (fullPath outputDir file)) w))"
  unfolding write_file_def report_def fullPath_def Let_def
  by (cases "os_MkdirAll (Dir (Join [outputDir, Name file])) w";
      cases "os_WriteFile (Join [outputDir, Name file]) (Code file)
               (snd (os_MkdirAll (Dir (Join [outputDir, Name file])) w))")
     (auto split: option.splits)

lemma write_file_cwd [simp]: "cwd (write_file outputDir i file w) = cwd w"
  by (simp add: write_file_eq)

lemma write_files_cwd [simp]: "cwd (write_files outputDir i files w) = cwd w"
  by (induction files arbitrary: i w) simp_all

lemma write_file_writes:
  "writes (trace (write_file outputDir i file w))
     = writes (trace w) @ (if written outputDir file w then [target outputDir file] else [])"
  by (auto simp: write_file_eq written_def target_def)

lemma write_file_failures:
  "(failures (trace (write_file outputDir i file w)) = failures (trace w))
     = written outputDir file w"
  by (auto simp: write_file_eq written_def)

lemma write_file_failures_grow:
  "\<exists>F. failures (trace (write_file outputDir i file w)) = failures (trace w) @ F"
  by (auto simp: write_file_eq)

lemma write_file_mkdirs:
  "mkdirs (trace (write_file outputDir i file w))
     = mkdirs (trace w) @ [Dir (fullPath outputDir file)]"
  by (auto simp: write_file_eq)

lemma write_file_stdout:
  "stdout (trace (write_file outputDir i file w))
     = stdout (trace w) @ [report outputDir i file w]"
  by (auto simp: write_file_eq)

subsection \<open>The loop\<close>

lemma write_files_append:
  "write_files outputDir i (xs @ ys) w
     = write_files outputDir (i + length xs) ys (write_files outputDir i xs w)"
  by (induction xs arbitrary: i w) simp_all

lemma write_files_take_Suc:
  "k < length files \<Longrightarrow>
     write_files outputDir i (take (Suc k) files) w
       = write_file outputDir (i + k) (files ! k) (write_files outputDir i (take k files) w)"
  by (simp add: take_Suc_conv_app_nth write_files_append)

lemma write_files_mkdirs:
  "mkdirs (trace (write_files outputDir i files w))
     = mkdirs (trace w) @ map (\<lambda>file. Dir (fullPath outputDir file)) files"
  by (induction files arbitrary: i w) (simp_all add: write_file_mkdirs)

lemma write_files_stdout_length:
  "length (stdout (trace (write_files outputDir i files w)))
     = length (stdout (trace w)) + length files"
  by (induction files arbitrary: i w) (simp_all add: write_file_stdout)

lemma write_files_writes:
  "\<exists>ws F. writes (trace (write_files outputDir i files w)) = writes (trace w) @ ws
        \<and> failures (trace (write_files outputDir i files w)) = failures (trace w) @ F
        \<and> subseq ws (map (target outputDir) files)
        \<and> (F = [] \<longrightarrow> ws = map (target outputDir) files)"
proof (induction files arbitrary: i w)
  case Nil
  show ?case by simp
next
  case (Cons x recs)
  let ?w1 = "write_file outputDir i x w"
  from Cons [of "i + 1" ?w1] obtain ws F where
    r: "writes (trace (write_files outputDir (i + 1) recs ?w1)) = writes (trace ?w1) @ ws"
       "failures (trace (write_files outputDir (i + 1) recs ?w1)) = failures (trace ?w1) @ F"
       "subseq ws (map (target outputDir) recs)"
       "F = [] \<longrightarrow> ws = map (target outputDir) recs"
    by blast
  from write_file_failures_grow [of outputDir i x w] obtain F1 where
    f1: "failures (trace ?w1) = failures (trace w) @ F1"
    by blast
  show ?case
  proof (cases "written outputDir x w")
    case True
    with write_file_writes [of outputDir i x w]
    have "writes (trace ?w1) = writes (trace w) @ [target outputDir x]"
      by simp
    with r f1 show ?thesis
      by (intro exI [of _ "target outputDir x # ws"] exI [of _ "F1 @ F"]) simp
  next
    case False
    with write_file_writes [of outputDir i x w]
    have w1: "writes (trace ?w1) = writes (trace w)"
      by simp
    from False write_file_failures [of outputDir i x w] f1 have "F1 \<noteq> []"
      by auto
    with r f1 w1 show ?thesis
      by (intro exI [of _ ws] exI [of _ "F1 @ F"]) (simp add: list_emb_Cons)
  qed
qed

lemma write_file_keeps_Regular:
  assumes "node_at (fs w) q = Some (Regular d)"
    and "resolve (cwd w) (fullPath outputDir file) \<noteq> q"
  shows "node_at (fs (write_file outputDir i file w)) q = Some (Regular d)"
  using assms MkdirAll_keeps [of "fs w" q "Regular d" "cwd w" "Dir (fullPath outputDir file)"]
    WriteFile_other [of q "cwd w" "fullPath outputDir file"]
  by (auto simp: write_file_eq)

lemma write_files_keep_Regular:
  assumes "node_at (fs w) q = Some (Regular d)"
    and "\<forall>file \<in> set files. resolve (cwd w) (fullPath outputDir file) \<noteq> q"
  shows "node_at (fs (write_files outputDir i files w)) q = Some (Regular d)"
  using assms
  by (induction files arbitrary: i w) (simp_all add: write_file_keeps_Regular)

lemma write_file_written:
  "written outputDir file w \<Longrightarrow>
     node_at (fs (write_file outputDir i file w)) (resolve (cwd w) (fullPath outputDir file))
       = Some (Regular (Code file))"
  using WriteFile_None [of "cwd w" "snd (MkdirAll (cwd w) (fs w) (Dir (fullPath outputDir file)))"
      "fullPath outputDir file" "Code file"]
  by (simp add: write_file_eq written_def)

text \<open>The last write to a path decides its content.\<close>

lemma last_write_wins:
  assumes "written outputDir file (write_files outputDir i xs w)"
    and "\<forall>g \<in> set ys. resolve (cwd w) (fullPath outputDir g)
                          \<noteq> resolve (cwd w) (fullPath outputDir file)"
  shows "node_at (fs (write_files outputDir i (xs @ file # ys) w))
           (resolve (cwd w) (fullPath outputDir file)) = Some (Regular (Code file))"
proof -
  let ?wk = "write_files outputDir i xs w"
  let ?w1 = "write_file outputDir (i + length xs) file ?wk"
  from write_file_written [OF assms(1), of "i + length xs"]
  have "node_at (fs ?w1) (resolve (cwd w) (fullPath outputDir file)) = Some (Regular (Code file))"
    by simp
  from write_files_keep_Regular [OF this, of ys outputDir "i + length xs + 1"] assms(2)
  show ?thesis
    by (simp add: write_files_append)
qed

subsection \<open>Parsing decides whether anything is written\<close>

definition parsed_line :: "File list \<Rightarrow> string" where
  "parsed_line files = ''\<newline>Successfully parsed '' @ itoa (length files) @ '' file(s)\<newline>''"

definition done_line :: "string \<Rightarrow> string" where
  "done_line outputDir =
     ''\<newline>All files have been written to the '' @ [CHR 0x27] @ outputDir @ [CHR 0x27]
       @ '' directory\<newline>''"

lemma write_output_eq:
  "write_output outputDir files w =
     (Returned,
      if fst (os_MkdirAll outputDir (Print (parsed_line files) w)) = None
      then Print (done_line outputDir)
             (write_files outputDir 0 files
                (snd (os_MkdirAll outputDir (Print (parsed_line files) w))))
      else Print (''Error creating output directory: ''
                    @ Error (the (fst (os_MkdirAll outputDir (Print (parsed_line files) w))))
                    @ ''\<newline>'')
             (snd (os_MkdirAll outputDir (Print (parsed_line files) w))))"
  unfolding write_output_def parsed_line_def done_line_def Let_def
  by (cases "os_MkdirAll outputDir
               (Print (''\<newline>Successfully parsed '' @ itoa (length files) @ '' file(s)\<newline>'') w)")
     (auto split: option.splits)

lemma materialize_Text:
  "materialize outputDir (Text t) w =
     (case Unmarshal (TrimSpace t) of
        None \<Rightarrow> (Returned, w)
      | Some files \<Rightarrow> write_output outputDir files w)"
  by (simp add: materialize_def)

lemma write_output_writes:
  "\<exists>ws F. writes (trace (snd (write_output outputDir files w))) = writes (trace w) @ ws
        \<and> failures (trace (snd (write_output outputDir files w))) = failures (trace w) @ F
        \<and> subseq ws (map (target outputDir) files)
        \<and> (F = [] \<longrightarrow> ws = map (target outputDir) files)"
proof (cases "fst (os_MkdirAll outputDir (Print (parsed_line files) w)) = None")
  case True
  let ?w2 = "snd (os_MkdirAll outputDir (Print (parsed_line files) w))"
  from write_files_writes [of outputDir 0 files ?w2] obtain ws F where
    r: "writes (trace (write_files outputDir 0 files ?w2)) = writes (trace ?w2) @ ws"
       "failures (trace (write_files outputDir 0 files ?w2)) = failures (trace ?w2) @ F"
       "subseq ws (map (target outputDir) files)"
       "F = [] \<longrightarrow> ws = map (target outputDir) files"
    by blast
  from True have "writes (trace ?w2) = writes (trace w)" "failures (trace ?w2) = failures (trace w)"
    by simp_all
  with r True show ?thesis
    by (intro exI [of _ ws] exI [of _ F]) (simp add: write_output_eq)
next
  case False
  then show ?thesis
    by (intro exI [of _ "[]"]
          exI [of _ "[CallMkdirAll outputDir (fst (MkdirAll (cwd w) (fs w) outputDir))]"])
       (auto simp: write_output_eq)
qed

text \<open>
  \<^bold>\<open>C2\<close> (as amended). When \<^verbatim>\<open>json.Unmarshal\<close> of the trimmed text fails, the world is
  left as it was: no directory, no file, no output. When it succeeds, the files written are
  records of the parsed array, in array order, with the record's path and content; they are
  all the records when no call fails.
\<close>

theorem all_or_nothing:
  "(Unmarshal (TrimSpace t) = None \<longrightarrow> materialize outputDir (Text t) w = (Returned, w))
   \<and> (\<forall>files. Unmarshal (TrimSpace t) = Some files \<longrightarrow>
         (\<exists>ws. writes (trace (snd (materialize outputDir (Text t) w))) = writes (trace w) @ ws
            \<and> subseq ws (map (target outputDir) files)
            \<and> (failures (trace (snd (materialize outputDir (Text t) w))) = failures (trace w)
                 \<longrightarrow> ws = map (target outputDir) files)))"
proof (intro conjI allI impI)
  assume "Unmarshal (TrimSpace t) = None"
  then show "materialize outputDir (Text t) w = (Returned, w)"
    by (simp add: materialize_Text)
next
  fix files
  assume "Unmarshal (TrimSpace t) = Some files"
  then have m: "materialize outputDir (Text t) w = write_output outputDir files w"
    by (simp add: materialize_Text)
  from write_output_writes [of outputDir files w] obtain ws F where
    r: "writes (trace (snd (write_output outputDir files w))) = writes (trace w) @ ws"
       "failures (trace (snd (write_output outputDir files w))) = failures (trace w) @ F"
       "subseq ws (map (target outputDir) files)"
       "F = [] \<longrightarrow> ws = map (target outputDir) files"
    by blast
  then show "\<exists>ws. writes (trace (snd (materialize outputDir (Text t) w))) = writes (trace w) @ ws
            \<and> subseq ws (map (target outputDir) files)
            \<and> (failures (trace (snd (materialize outputDir (Text t) w))) = failures (trace w)
                 \<longrightarrow> ws = map (target outputDir) files)"
    unfolding m by (intro exI [of _ ws]) simp
qed

theorem all_or_nothing_witness:
  \<open>Unmarshal (TrimSpace ''[{"file_name": "a.txt"'') = None
   \<and> materialize ''output'' (Text ''[{"file_name": "a.txt"'') empty_world = (Returned, empty_world)
   \<and> Unmarshal (TrimSpace ''[{"file_name":"a.txt","source_code":"x"}]'')
       = Some [\<lparr>Name = ''a.txt'', Code = ''x''\<rparr>]
   \<and> failures (trace (snd (materialize ''output''
         (Text ''[{"file_name":"a.txt","source_code":"x"}]'') empty_world))) = []
   \<and> writes (trace (snd (materialize ''output''
         (Text ''[{"file_name":"a.txt","source_code":"x"}]'') empty_world)))
       = [(''output/a.txt'', ''x'')]\<close>
proof -
  have h1: \<open>Unmarshal (TrimSpace ''[{"file_name": "a.txt"'') = None\<close>
    by (simp add: run)
  have h2: \<open>Unmarshal (TrimSpace ''[{"file_name":"a.txt","source_code":"x"}]'')
       = Some [\<lparr>Name = ''a.txt'', Code = ''x''\<rparr>]\<close>
    by (simp add: run)
  have h3: \<open>failures (trace (snd (materialize ''output''
         (Text ''[{"file_name":"a.txt","source_code":"x"}]'') empty_world))) = []\<close>
    by (simp add: run empty_world_def)
  from all_or_nothing [of \<open>''[{"file_name": "a.txt"''\<close> "''output''" empty_world] h1
  have c1: \<open>materialize ''output'' (Text ''[{"file_name": "a.txt"'') empty_world
              = (Returned, empty_world)\<close>
    by blast
  from all_or_nothing [of \<open>''[{"file_name":"a.txt","source_code":"x"}]''\<close> "''output''" empty_world]
    h2 h3
  have c2: \<open>writes (trace (snd (materialize ''output''
         (Text ''[{"file_name":"a.txt","source_code":"x"}]'') empty_world)))
       = [(''output/a.txt'', ''x'')]\<close>
    by (auto simp: empty_world_def target_def fullPath_def Join_def Clean_def Separator_def
          clean_step_def)
  from h1 h2 h3 c1 c2 show ?thesis
    by blast
qed

text \<open>
  C2 as stated fails: the record named \<^verbatim>\<open>.\<close> is parsed, its path is the output directory
  itself, so \<^verbatim>\<open>WriteFile\<close> fails and nothing is written.
\<close>

theorem all_or_nothing_counterexample:
  \<open>Unmarshal (TrimSpace ''[{"file_name":".","source_code":"x"}]'')
       = Some [\<lparr>Name = ''.'', Code = ''x''\<rparr>]
   \<and> writes (trace (snd (materialize ''output''
         (Text ''[{"file_name":".","source_code":"x"}]'') empty_world))) = []
   \<and> fs (snd (materialize ''output''
         (Text ''[{"file_name":".","source_code":"x"}]'') empty_world)) [''output'']
       = Some Directory\<close>
  by (simp add: run empty_world_def)

subsection \<open>Missing fields\<close>

text \<open>
  A member belongs to a field when its key names the field; a value can be stored in a string
  field when it is a string or \<^verbatim>\<open>null\<close>; an element can be stored in a \<^verbatim>\<open>File\<close> when
  it is \<^verbatim>\<open>null\<close> or an object whose members for the two fields can be stored.
\<close>

definition has_member :: "field \<Rightarrow> (string \<times> json) list \<Rightarrow> bool" where
  "has_member fld ms = list_ex (\<lambda>(k, v). field_of_key k = Some fld) ms"

definition storable :: "json \<Rightarrow> bool" where
  "storable v = (case v of JString s \<Rightarrow> True | JNull \<Rightarrow> True | _ \<Rightarrow> False)"

definition typed_members :: "(string \<times> json) list \<Rightarrow> bool" where
  "typed_members ms = list_all (\<lambda>(k, v). field_of_key k = None \<or> storable v) ms"

definition is_record :: "json \<Rightarrow> bool" where
  "is_record v = (case v of JObject ms \<Rightarrow> typed_members ms | JNull \<Rightarrow> True | _ \<Rightarrow> False)"

lemma store_string_Some: "(store_string v cur \<noteq> None) = storable v"
  by (cases v) (simp_all add: store_string_def storable_def)

lemma object_File_typed:
  "typed_members ms \<Longrightarrow>
     \<exists>f'. object_File ms f = Some f'
        \<and> (\<not> has_member Field_Name ms \<longrightarrow> Name f' = Name f)
        \<and> (\<not> has_member Field_Code ms \<longrightarrow> Code f' = Code f)"
proof (induction ms arbitrary: f)
  case Nil
  show ?case by (simp add: has_member_def)
next
  case (Cons m ms)
  obtain k v where m: "m = (k, v)" by (cases m)
  from Cons.prems m have tm: "typed_members ms" and kv: "field_of_key k = None \<or> storable v"
    by (simp_all add: typed_members_def)
  show ?case
  proof (cases "field_of_key k")
    case None
    with Cons.IH [OF tm, of f] m show ?thesis
      by (auto simp: has_member_def)
  next
    case (Some fld)
    with kv have "storable v" by simp
    then obtain s where s: "store_string v (Name f) = Some s \<or> True"
      by simp
    from \<open>storable v\<close> obtain s1 where s1: "store_string v (Name f) = Some s1"
      using store_string_Some [of v "Name f"] by auto
    from \<open>storable v\<close> obtain s2 where s2: "store_string v (Code f) = Some s2"
      using store_string_Some [of v "Code f"] by auto
    show ?thesis
    proof (cases fld)
      case Field_Name
      with Cons.IH [OF tm, of "f\<lparr>Name := s1\<rparr>"] m Some s1 show ?thesis
        by (auto simp: has_member_def)
    next
      case Field_Code
      with Cons.IH [OF tm, of "f\<lparr>Code := s2\<rparr>"] m Some s2 show ?thesis
        by (auto simp: has_member_def)
    qed
  qed
qed

lemma object_File_Some_typed: "object_File ms f = Some f' \<Longrightarrow> typed_members ms"
proof (induction ms arbitrary: f)
  case Nil
  show ?case by (simp add: typed_members_def)
next
  case (Cons m ms)
  obtain k v where m: "m = (k, v)" by (cases m)
  from Cons.prems m show ?case
    using Cons.IH store_string_Some [of v "Name f"] store_string_Some [of v "Code f"]
    by (auto simp: typed_members_def split: option.splits field.splits)
qed

lemma value_File_Some: "(value_File v \<noteq> None) = is_record v"
proof (cases v)
  case (JObject ms)
  from object_File_typed [of ms zero_File] object_File_Some_typed [of ms zero_File]
  have "(object_File ms zero_File \<noteq> None) = typed_members ms"
    by auto
  with JObject show ?thesis
    by (simp add: value_File_def is_record_def)
qed (simp_all add: value_File_def is_record_def)

lemma array_Files_Some: "(array_Files vs \<noteq> None) = list_all is_record vs"
proof (induction vs)
  case Nil
  show ?case by simp
next
  case (Cons v vs)
  with value_File_Some [of v] show ?case
    by (cases "value_File v"; cases "array_Files vs") simp_all
qed

lemma array_Files_nth:
  "array_Files vs = Some files \<Longrightarrow>
     length files = length vs \<and> (\<forall>i < length vs. value_File (vs ! i) = Some (files ! i))"
proof (induction vs arbitrary: files)
  case Nil
  then show ?case by simp
next
  case (Cons v vs)
  then show ?case
    by (auto split: option.splits simp: nth_Cons split: nat.splits)
qed

text \<open>
  \<^bold>\<open>C3\<close> (as amended). Let the trimmed text be a JSON array. Unmarshalling fails, and nothing
  is written, exactly when some element is neither \<^verbatim>\<open>null\<close> nor an object whose members
  for \<^verbatim>\<open>file_name\<close> and \<^verbatim>\<open>source_code\<close> are strings or \<^verbatim>\<open>null\<close>. Otherwise it
  succeeds with one record per element, whether or not the members are there: the field of
  a missing member is the empty string, and the records go on to be written.
\<close>

theorem missing_field_is_empty:
  assumes "parse_json (TrimSpace t) = Some (JArray vs)"
  shows "(\<not> list_all is_record vs \<longrightarrow>
            Unmarshal (TrimSpace t) = None \<and> materialize outputDir (Text t) w = (Returned, w))
       \<and> (list_all is_record vs \<longrightarrow>
            (\<exists>files. Unmarshal (TrimSpace t) = Some files \<and> length files = length vs
               \<and> materialize outputDir (Text t) w = write_output outputDir files w
               \<and> (\<forall>i < length vs. \<forall>ms. vs ! i = JObject ms \<longrightarrow>
                     (\<not> has_member Field_Name ms \<longrightarrow> Name (files ! i) = [])
                   \<and> (\<not> has_member Field_Code ms \<longrightarrow> Code (files ! i) = []))))"
proof (intro conjI impI)
  assume "\<not> list_all is_record vs"
  with array_Files_Some [of vs] have "array_Files vs = None"
    by simp
  with assms have u: "Unmarshal (TrimSpace t) = None"
    by (simp add: Unmarshal_def value_Files_def)
  then show "Unmarshal (TrimSpace t) = None" .
  from u show "materialize outputDir (Text t) w = (Returned, w)"
    by (simp add: materialize_Text)
next
  assume "list_all is_record vs"
  with array_Files_Some [of vs] obtain files where a: "array_Files vs = Some files"
    by auto
  with assms have u: "Unmarshal (TrimSpace t) = Some files"
    by (simp add: Unmarshal_def value_Files_def)
  from array_Files_nth [OF a] have len: "length files = length vs"
    and nth: "\<And>i. i < length vs \<Longrightarrow> value_File (vs ! i) = Some (files ! i)"
    by simp_all
  have fields: "(\<not> has_member Field_Name ms \<longrightarrow> Name (files ! i) = [])
              \<and> (\<not> has_member Field_Code ms \<longrightarrow> Code (files ! i) = [])"
    if "i < length vs" "vs ! i = JObject ms" for i ms
  proof -
    from nth [OF that(1)] that(2) have o: "object_File ms zero_File = Some (files ! i)"
      by (simp add: value_File_def)
    from object_File_Some_typed [OF o] have "typed_members ms" .
    from object_File_typed [OF this, of zero_File] o show ?thesis
      by (simp add: zero_File_def)
  qed
  from u len fields
  show "\<exists>files. Unmarshal (TrimSpace t) = Some files \<and> length files = length vs
               \<and> materialize outputDir (Text t) w = write_output outputDir files w
               \<and> (\<forall>i < length vs. \<forall>ms. vs ! i = JObject ms \<longrightarrow>
                     (\<not> has_member Field_Name ms \<longrightarrow> Name (files ! i) = [])
                   \<and> (\<not> has_member Field_Code ms \<longrightarrow> Code (files ! i) = []))"
    by (intro exI [of _ files]) (simp add: materialize_Text)
qed

theorem missing_field_is_empty_witness:
  \<open>parse_json (TrimSpace ''[{"file_name":"a.txt"},{"source_code":"x"}]'')
     = Some (JArray [JObject [(''file_name'', JString ''a.txt'')],
                     JObject [(''source_code'', JString ''x'')]])
   \<and> list_all is_record [JObject [(''file_name'', JString ''a.txt'')],
                          JObject [(''source_code'', JString ''x'')]]
   \<and> (\<exists>files. Unmarshal (TrimSpace ''[{"file_name":"a.txt"},{"source_code":"x"}]'') = Some files
         \<and> length files = 2 \<and> Code (files ! 0) = [] \<and> Name (files ! 1) = [])\<close>
proof -
  let ?t = \<open>''[{"file_name":"a.txt"},{"source_code":"x"}]''\<close>
  let ?vs = "[JObject [(''file_name'', JString ''a.txt'')],
              JObject [(''source_code'', JString ''x'')]]"
  have h1: "parse_json (TrimSpace ?t) = Some (JArray ?vs)"
    by (simp add: run)
  have h2: "list_all is_record ?vs"
    by (simp add: is_record_def typed_members_def storable_def run)
  have h3: "\<not> has_member Field_Code [(''file_name'', JString ''a.txt'')]"
    "\<not> has_member Field_Name [(''source_code'', JString ''x'')]"
    by (simp_all add: has_member_def run)
  from missing_field_is_empty [OF h1, of "''output''" empty_world] h2 obtain files where
    f: "Unmarshal (TrimSpace ?t) = Some files" "length files = length ?vs"
       "\<forall>i < length ?vs. \<forall>ms. ?vs ! i = JObject ms \<longrightarrow>
           (\<not> has_member Field_Name ms \<longrightarrow> Name (files ! i) = [])
         \<and> (\<not> has_member Field_Code ms \<longrightarrow> Code (files ! i) = [])"
    by blast
  from f(3) [rule_format, of 0] h3 have "Code (files ! 0) = []"
    by simp
  moreover from f(3) [rule_format, of 1] h3 have "Name (files ! 1) = []"
    by simp
  ultimately show ?thesis
    using h1 h2 f(1,2) by auto
qed

text \<open>
  C3 as stated fails: the object without \<^verbatim>\<open>source_code\<close> is parsed, and an empty file
  is written for it.
\<close>

theorem missing_field_counterexample:
  \<open>Unmarshal (TrimSpace ''[{"file_name":"main.go"}]'') = Some [\<lparr>Name = ''main.go'', Code = []\<rparr>]
   \<and> writes (trace (snd (materialize ''output'' (Text ''[{"file_name":"main.go"}]'') empty_world)))
       = [(''output/main.go'', [])]
   \<and> fs (snd (materialize ''output'' (Text ''[{"file_name":"main.go"}]'') empty_world))
        [''output'', ''main.go''] = Some (Regular [])\<close>
  by (simp add: run empty_world_def)

subsection \<open>One record\<close>

lemma written_fs:
  "written outputDir file w \<Longrightarrow>
     fs (write_file outputDir i file w)
       = snd (WriteFile (cwd w) (snd (MkdirAll (cwd w) (fs w) (Dir (fullPath outputDir file))))
                (fullPath outputDir file) (Code file))"
  by (simp add: write_file_eq written_def)

lemma written_trace:
  "written outputDir file w \<Longrightarrow>
     trace (write_file outputDir i file w)
       = trace w @ [CallMkdirAll (Dir (fullPath outputDir file)) None,
                    CallWriteFile (fullPath outputDir file) (Code file) None,
                    Stdout (report outputDir i file w)]"
  by (simp add: write_file_eq written_def)

lemma tree_write_file: "tree (fs w) \<Longrightarrow> tree (fs (write_file outputDir i file w))"
  using tree_MkdirAll [of "fs w" "cwd w" "Dir (fullPath outputDir file)"]
    tree_WriteFile [of "snd (MkdirAll (cwd w) (fs w) (Dir (fullPath outputDir file)))" "cwd w"
      "fullPath outputDir file" "Code file"]
  by (simp add: write_file_eq)

text \<open>
  \<^bold>\<open>C5\<close> (as amended). For a record whose directory creation and file write succeed, in a
  well-formed file system: the two calls are \<^verbatim>\<open>MkdirAll\<close> of the directory of the joined
  path and \<^verbatim>\<open>WriteFile\<close> of the joined path; afterwards the file stands at the joined path
  with the record's content, and every directory above it exists. The name is not examined:
  the statement holds for names with \<^verbatim>\<open>..\<close> too, and the witness writes a file outside
  both the output directory and the working directory.
\<close>

theorem file_lands_at_joined_path:
  assumes "tree (fs w)" and "written outputDir file w"
  shows "trace (write_file outputDir i file w)
           = trace w @ [CallMkdirAll (Dir (Join [outputDir, Name file])) None,
                        CallWriteFile (Join [outputDir, Name file]) (Code file) None,
                        Stdout (report outputDir i file w)]
       \<and> node_at (fs (write_file outputDir i file w))
            (resolve (cwd w) (Join [outputDir, Name file])) = Some (Regular (Code file))
       \<and> (\<forall>n < length (resolve (cwd w) (Join [outputDir, Name file])).
             node_at (fs (write_file outputDir i file w))
               (take n (resolve (cwd w) (Join [outputDir, Name file]))) = Some Directory)"
proof -
  let ?w' = "write_file outputDir i file w"
  let ?p = "resolve (cwd w) (Join [outputDir, Name file])"
  from written_trace [OF assms(2), of i]
  have 1: "trace ?w' = trace w @ [CallMkdirAll (Dir (Join [outputDir, Name file])) None,
                        CallWriteFile (Join [outputDir, Name file]) (Code file) None,
                        Stdout (report outputDir i file w)]"
    by (simp add: fullPath_def)
  from write_file_written [OF assms(2), of i]
  have 2: "node_at (fs ?w') ?p = Some (Regular (Code file))"
    by (simp add: fullPath_def)
  then have "fs ?w' ?p \<noteq> None"
    by (auto simp: node_at_def split: if_splits)
  from tree_ancestors [OF tree_write_file [OF assms(1)] this]
  have 3: "\<forall>n < length ?p. node_at (fs ?w') (take n ?p) = Some Directory"
    by simp
  from 1 2 3 show ?thesis
    by simp
qed

definition home_world :: world where
  "home_world =
     \<lparr>fs = [[''home''] \<mapsto> Directory, [''home'', ''u''] \<mapsto> Directory],
      cwd = [''home'', ''u''], trace = []\<rparr>"

lemma tree_empty: "tree Map.empty"
  by (simp add: tree_def)

lemma tree_home_world: "tree (fs home_world)"
proof -
  have "tree [[''home''] \<mapsto> Directory]"
    by (rule tree_upd [OF tree_empty]) (simp_all add: node_at_def)
  then have "tree ([[''home''] \<mapsto> Directory]([''home'', ''u''] \<mapsto> Directory))"
    by (rule tree_upd) (simp_all add: node_at_def)
  then show ?thesis
    by (simp add: home_world_def)
qed

theorem file_lands_at_joined_path_witness:
  "tree (fs home_world)
   \<and> written ''output'' \<lparr>Name = ''../../src/pkg/main.ext'', Code = ''x''\<rparr> home_world
   \<and> Join [''output'', ''../../src/pkg/main.ext''] = ''../src/pkg/main.ext''
   \<and> resolve (cwd home_world) ''../src/pkg/main.ext'' = [''home'', ''src'', ''pkg'', ''main.ext'']
   \<and> node_at (fs (write_file ''output'' 0 \<lparr>Name = ''../../src/pkg/main.ext'', Code = ''x''\<rparr>
                     home_world)) [''home'', ''src'', ''pkg'', ''main.ext''] = Some (Regular ''x'')
   \<and> node_at (fs (write_file ''output'' 0 \<lparr>Name = ''../../src/pkg/main.ext'', Code = ''x''\<rparr>
                     home_world)) [''home'', ''src'', ''pkg''] = Some Directory
   \<and> node_at (fs (write_file ''output'' 0 \<lparr>Name = ''../../src/pkg/main.ext'', Code = ''x''\<rparr>
                     home_world)) [''home'', ''src''] = Some Directory"
proof -
  let ?f = "\<lparr>Name = ''../../src/pkg/main.ext'', Code = ''x''\<rparr>"
  have h2: "written ''output'' ?f home_world"
    by (simp add: written_def fullPath_def home_world_def run del: os_MkdirAll_simps os_WriteFile_simps)
  have j: "Join [''output'', ''../../src/pkg/main.ext''] = ''../src/pkg/main.ext''"
    by (simp add: run)
  have r: "resolve (cwd home_world) ''../src/pkg/main.ext'' = [''home'', ''src'', ''pkg'', ''main.ext'']"
    by (simp add: home_world_def run)
  from file_lands_at_joined_path [OF tree_home_world h2, of 0]
  have c: "node_at (fs (write_file ''output'' 0 ?f home_world))
             [''home'', ''src'', ''pkg'', ''main.ext''] = Some (Regular ''x'')"
    "\<forall>n < 4. node_at (fs (write_file ''output'' 0 ?f home_world))
             (take n [''home'', ''src'', ''pkg'', ''main.ext'']) = Some Directory"
    by (simp_all add: j r)
  from c(2) [rule_format, of 3] c(2) [rule_format, of 2] c(1) tree_home_world h2 j r
  show ?thesis
    by (simp add: numeral_3_eq_3 numeral_2_eq_2)
qed

text \<open>
  C5 as stated fails: after \<^verbatim>\<open>lib\<close> has been written as a file, the directory of
  \<^verbatim>\<open>lib/util.go\<close> cannot be made, and that record does not land at its joined path.
\<close>

theorem file_lands_counterexample:
  \<open>Unmarshal (TrimSpace
      ''[{"file_name":"lib","source_code":"x"},{"file_name":"lib/util.go","source_code":"y"}]'')
     = Some [\<lparr>Name = ''lib'', Code = ''x''\<rparr>, \<lparr>Name = ''lib/util.go'', Code = ''y''\<rparr>]
   \<and> Join [''output'', ''lib/util.go''] = ''output/lib/util.go''
   \<and> fs (snd (materialize ''output'' (Text
        ''[{"file_name":"lib","source_code":"x"},{"file_name":"lib/util.go","source_code":"y"}]'')
        empty_world)) [''output'', ''lib'', ''util.go''] = None
   \<and> fs (snd (materialize ''output'' (Text
        ''[{"file_name":"lib","source_code":"x"},{"file_name":"lib/util.go","source_code":"y"}]'')
        empty_world)) [''output'', ''lib''] = Some (Regular ''x'')\<close>
  by (simp add: run empty_world_def del: os_MkdirAll_simps os_WriteFile_simps)

subsection \<open>A record that fails\<close>

lemma report_not_written:
  "\<not> written outputDir file w \<Longrightarrow>
     \<exists>err. report outputDir i file w
             = ''Error creating directory for '' @ Name file @ '': '' @ Error err @ ''\<newline>''
          \<or> report outputDir i file w
             = ''Error writing file '' @ Name file @ '': '' @ Error err @ ''\<newline>''"
  unfolding report_def written_def
  by (cases "os_MkdirAll (Dir (fullPath outputDir file)) w";
      cases "os_WriteFile (fullPath outputDir file) (Code file)
               (snd (os_MkdirAll (Dir (fullPath outputDir file)) w))")
     (auto simp del: os_MkdirAll_simps os_WriteFile_simps split: option.splits)

text \<open>
  \<^bold>\<open>C6\<close> (as amended). The loop attempts every record, in order, whatever happened to the
  others: there is one \<^verbatim>\<open>MkdirAll\<close> call and one line of output per record. Record \<open>k\<close>
  is processed in the world that the first \<open>k\<close> records left. If its own two calls succeed
  there, it is written; if one of them fails, nothing is written for it, an error line
  naming it is printed, and the loop goes on with the next record. A remaining record is
  attempted, but it is written only if its own calls succeed.
\<close>

theorem record_failure_is_not_fatal:
  "mkdirs (trace (write_files outputDir i files w))
     = mkdirs (trace w) @ map (\<lambda>file. Dir (Join [outputDir, Name file])) files
   \<and> length (stdout (trace (write_files outputDir i files w)))
       = length (stdout (trace w)) + length files
   \<and> (\<forall>k < length files.
         write_files outputDir i (take (Suc k) files) w
           = write_file outputDir (i + k) (files ! k) (write_files outputDir i (take k files) w)
         \<and> (written outputDir (files ! k) (write_files outputDir i (take k files) w) \<longrightarrow>
               writes (trace (write_files outputDir i (take (Suc k) files) w))
                 = writes (trace (write_files outputDir i (take k files) w))
                     @ [(Join [outputDir, Name (files ! k)], Code (files ! k))])
         \<and> (\<not> written outputDir (files ! k) (write_files outputDir i (take k files) w) \<longrightarrow>
               writes (trace (write_files outputDir i (take (Suc k) files) w))
                 = writes (trace (write_files outputDir i (take k files) w))
               \<and> (\<exists>err. stdout (trace (write_files outputDir i (take (Suc k) files) w))
                     = stdout (trace (write_files outputDir i (take k files) w))
                         @ [''Error creating directory for '' @ Name (files ! k) @ '': ''
                              @ Error err @ ''\<newline>'']
                   \<or> stdout (trace (write_files outputDir i (take (Suc k) files) w))
                     = stdout (trace (write_files outputDir i (take k files) w))
                         @ [''Error writing file '' @ Name (files ! k) @ '': ''
                              @ Error err @ ''\<newline>''])))"
proof (intro conjI allI impI)
  show "mkdirs (trace (write_files outputDir i files w))
     = mkdirs (trace w) @ map (\<lambda>file. Dir (Join [outputDir, Name file])) files"
    using write_files_mkdirs [of outputDir i files w] by (simp add: fullPath_def)
  show "length (stdout (trace (write_files outputDir i files w)))
       = length (stdout (trace w)) + length files"
    by (rule write_files_stdout_length)
next
  fix k assume k: "k < length files"
  let ?wk = "write_files outputDir i (take k files) w"
  show step: "write_files outputDir i (take (Suc k) files) w
           = write_file outputDir (i + k) (files ! k) ?wk"
    by (rule write_files_take_Suc [OF k])
  {
    assume "written outputDir (files ! k) ?wk"
    with write_file_writes [of outputDir "i + k" "files ! k" ?wk]
    show "writes (trace (write_files outputDir i (take (Suc k) files) w))
                 = writes (trace ?wk) @ [(Join [outputDir, Name (files ! k)], Code (files ! k))]"
      by (simp add: step target_def fullPath_def)
  }
  {
    assume nw: "\<not> written outputDir (files ! k) ?wk"
    with write_file_writes [of outputDir "i + k" "files ! k" ?wk]
    show "writes (trace (write_files outputDir i (take (Suc k) files) w)) = writes (trace ?wk)"
      by (simp add: step)
    from report_not_written [OF nw, of "i + k"] write_file_stdout [of outputDir "i + k" "files ! k" ?wk]
    show "\<exists>err. stdout (trace (write_files outputDir i (take (Suc k) files) w))
                     = stdout (trace ?wk)
                         @ [''Error creating directory for '' @ Name (files ! k) @ '': ''
                              @ Error err @ ''\<newline>'']
                   \<or> stdout (trace (write_files outputDir i (take (Suc k) files) w))
                     = stdout (trace ?wk)
                         @ [''Error writing file '' @ Name (files ! k) @ '': ''
                              @ Error err @ ''\<newline>'']"
      unfolding step by auto
  }
qed

definition three_files :: "File list" where
  "three_files =
     [\<lparr>Name = ''a.txt'', Code = ''x''\<rparr>, \<lparr>Name = ''a.txt/b'', Code = ''y''\<rparr>,
      \<lparr>Name = ''c.txt'', Code = ''z''\<rparr>]"

theorem record_failure_is_not_fatal_witness:
  "\<not> written ''output'' (three_files ! 1) (write_files ''output'' 0 (take 1 three_files) empty_world)
   \<and> written ''output'' (three_files ! 2) (write_files ''output'' 0 (take 2 three_files) empty_world)
   \<and> mkdirs (trace (write_files ''output'' 0 three_files empty_world))
       = [''output'', ''output/a.txt'', ''output'']
   \<and> writes (trace (write_files ''output'' 0 three_files empty_world))
       = [(''output/a.txt'', ''x''), (''output/c.txt'', ''z'')]
   \<and> stdout (trace (write_files ''output'' 0 three_files empty_world)) ! 1
       = ''Error creating directory for a.txt/b: mkdir output/a.txt: not a directory\<newline>''"
proof -
  note inst = record_failure_is_not_fatal [of "''output''" 0 three_files empty_world]
  have h1: "\<not> written ''output'' (three_files ! 1)
              (write_files ''output'' 0 (take 1 three_files) empty_world)"
    by (simp add: three_files_def empty_world_def written_def fullPath_def run
          del: os_MkdirAll_simps os_WriteFile_simps)
  have h2: "written ''output'' (three_files ! 2)
              (write_files ''output'' 0 (take 2 three_files) empty_world)"
    by (simp add: three_files_def empty_world_def written_def fullPath_def run
          numeral_2_eq_2 del: os_MkdirAll_simps os_WriteFile_simps)
  from inst have m: "mkdirs (trace (write_files ''output'' 0 three_files empty_world))
       = mkdirs (trace empty_world) @ map (\<lambda>file. Dir (Join [''output'', Name file])) three_files"
    by blast
  have m': "mkdirs (trace (write_files ''output'' 0 three_files empty_world))
       = [''output'', ''output/a.txt'', ''output'']"
    unfolding m by (simp add: three_files_def empty_world_def run)
  have w: "writes (trace (write_files ''output'' 0 three_files empty_world))
       = [(''output/a.txt'', ''x''), (''output/c.txt'', ''z'')]"
    by (simp add: three_files_def empty_world_def run
          del: os_MkdirAll_simps os_WriteFile_simps)
  have s: "stdout (trace (write_files ''output'' 0 three_files empty_world)) ! 1
       = ''Error creating directory for a.txt/b: mkdir output/a.txt: not a directory\<newline>''"
    by (simp add: three_files_def empty_world_def run
          del: os_MkdirAll_simps os_WriteFile_simps)
  from h1 h2 m' w s show ?thesis
    by blast
qed

definition blocked_files :: "File list" where
  "blocked_files =
     [\<lparr>Name = ''a.txt'', Code = ''x''\<rparr>, \<lparr>Name = ''a.txt/b'', Code = ''y''\<rparr>,
      \<lparr>Name = ''a.txt/c'', Code = ''z''\<rparr>]"

text \<open>
  C6 as stated fails: after the record \<open>a.txt/b\<close> has failed, the remaining record
  \<open>a.txt/c\<close> is attempted but not written, since the first record has put a file where
  both need a directory.
\<close>

theorem record_failure_counterexample:
  "mkdirs (trace (write_files ''output'' 0 blocked_files empty_world))
     = [''output'', ''output/a.txt'', ''output/a.txt'']
   \<and> writes (trace (write_files ''output'' 0 blocked_files empty_world))
       = [(''output/a.txt'', ''x'')]
   \<and> stdout (trace (write_files ''output'' 0 blocked_files empty_world))
       = [''\<newline>File 1: a.txt written to output/a.txt\<newline>'',
          ''Error creating directory for a.txt/b: mkdir output/a.txt: not a directory\<newline>'',
          ''Error creating directory for a.txt/c: mkdir output/a.txt: not a directory\<newline>'']"
  by (simp add: blocked_files_def empty_world_def run
        del: os_MkdirAll_simps os_WriteFile_simps)

subsection \<open>Two records with one name\<close>

lemma write_file_keeps_Directory:
  "node_at (fs w) q = Some Directory \<Longrightarrow>
     node_at (fs (write_file outputDir i file w)) q = Some Directory"
  using MkdirAll_keeps [of "fs w" q Directory "cwd w" "Dir (fullPath outputDir file)"]
    WriteFile_Directory [of "snd (MkdirAll (cwd w) (fs w) (Dir (fullPath outputDir file)))" q
      "cwd w" "fullPath outputDir file" "Code file"]
  by (auto simp: write_file_eq)

lemma write_files_keep_Directory:
  "node_at (fs w) q = Some Directory \<Longrightarrow>
     node_at (fs (write_files outputDir i files w)) q = Some Directory"
  by (induction files arbitrary: i w) (simp_all add: write_file_keeps_Directory)

lemma WriteFile_stays_Regular:
  "node_at fsys q = Some (Regular d) \<Longrightarrow>
     \<exists>d'. node_at (snd (WriteFile wd fsys name data)) q = Some (Regular d')"
  by (auto simp: WriteFile_def Let_def node_at_def split: option.splits node.splits)

lemma write_file_stays_Regular:
  assumes "node_at (fs w) q = Some (Regular d)"
  shows "\<exists>d'. node_at (fs (write_file outputDir i file w)) q = Some (Regular d')"
proof -
  from MkdirAll_keeps [OF assms, of "cwd w" "Dir (fullPath outputDir file)"]
  have k: "node_at (snd (MkdirAll (cwd w) (fs w) (Dir (fullPath outputDir file)))) q
             = Some (Regular d)" .
  from WriteFile_stays_Regular [OF k, of "cwd w" "fullPath outputDir file" "Code file"] k
  show ?thesis
    by (auto simp: write_file_eq)
qed

lemma write_files_stay_Regular:
  "node_at (fs w) q = Some (Regular d) \<Longrightarrow>
     \<exists>d'. node_at (fs (write_files outputDir i files w)) q = Some (Regular d')"
proof (induction files arbitrary: i w d)
  case Nil
  then show ?case by simp
next
  case (Cons x recs)
  from write_file_stays_Regular [OF Cons.prems, of outputDir i x] obtain d' where
    "node_at (fs (write_file outputDir i x w)) q = Some (Regular d')"
    by blast
  from Cons.IH [OF this] show ?case
    by simp
qed

lemma MkdirAll_empty: "fst (MkdirAll wd fsys []) \<noteq> None"
  by (subst MkdirAll.simps) (simp add: Stat_def Mkdir_def parent_len_def)

lemma WriteFile_empty: "fst (WriteFile wd fsys [] data) \<noteq> None"
  by (simp add: WriteFile_def)

lemma MkdirAll_there:
  "path \<noteq> [] \<Longrightarrow> node_at fsys (resolve wd path) = Some Directory \<Longrightarrow>
     MkdirAll wd fsys path = (None, fsys)"
  by (subst MkdirAll.simps) (simp add: Stat_def)

lemma WriteFile_there:
  "name \<noteq> [] \<Longrightarrow> node_at fsys (resolve wd name) = Some (Regular d) \<Longrightarrow>
     fst (WriteFile wd fsys name data) = None"
  by (simp add: WriteFile_def)

text \<open>Once a record has been written, a record with the same path is written too.\<close>

lemma written_after:
  assumes "written outputDir f w" and "fullPath outputDir g = fullPath outputDir f"
  shows "written outputDir g (write_files outputDir m ys (write_file outputDir n f w))"
proof -
  let ?fp = "fullPath outputDir f"
  let ?w1 = "write_file outputDir n f w"
  let ?w2 = "write_files outputDir m ys ?w1"
  from assms(1) MkdirAll_empty [of "cwd w" "fs w"] have dne: "Dir ?fp \<noteq> []"
    by (auto simp: written_def)
  from assms(1)
    WriteFile_empty [of "cwd w" "snd (MkdirAll (cwd w) (fs w) (Dir ?fp))" "Code f"]
  have fne: "?fp \<noteq> []"
    by (auto simp: written_def)
  from assms(1) have "fst (MkdirAll (cwd w) (fs w) (Dir ?fp)) = None"
    by (simp add: written_def)
  from MkdirAll_None [OF this]
  have "node_at (snd (MkdirAll (cwd w) (fs w) (Dir ?fp))) (resolve (cwd w) (Dir ?fp))
          = Some Directory" .
  from WriteFile_Directory [OF this, of "cwd w" ?fp "Code f"] assms(1)
  have "node_at (fs ?w1) (resolve (cwd w) (Dir ?fp)) = Some Directory"
    by (simp add: written_fs)
  from write_files_keep_Directory [OF this, of outputDir m ys]
  have d: "node_at (fs ?w2) (resolve (cwd w) (Dir ?fp)) = Some Directory" .
  from write_file_written [OF assms(1), of n]
  have "node_at (fs ?w1) (resolve (cwd w) ?fp) = Some (Regular (Code f))" .
  from write_files_stay_Regular [OF this, of outputDir m ys] obtain d' where
    r: "node_at (fs ?w2) (resolve (cwd w) ?fp) = Some (Regular d')"
    by blast
  from MkdirAll_there [OF dne, of "fs ?w2" "cwd w"] d
  have "MkdirAll (cwd w) (fs ?w2) (Dir ?fp) = (None, fs ?w2)"
    by simp
  with WriteFile_there [OF fne, of "fs ?w2" "cwd w" d' "Code g"] r assms(2) show ?thesis
    by (simp add: written_def)
qed

text \<open>
  \<^bold>\<open>C8\<close> (as amended). Let two records of the array have the same name, and let no record
  after the later one be written to the same file. If the earlier record is written when
  its turn comes, or the later one is, then the later one is written, and at the end of the
  loop the file at their path holds exactly the later record's code.
\<close>

theorem last_record_wins:
  assumes "i < j" and "j < length files" and "Name (files ! i) = Name (files ! j)"
    and "written outputDir (files ! i) (write_files outputDir n (take i files) w)
         \<or> written outputDir (files ! j) (write_files outputDir n (take j files) w)"
    and "\<forall>k < length files. j < k \<longrightarrow>
           resolve (cwd w) (Join [outputDir, Name (files ! k)])
             \<noteq> resolve (cwd w) (Join [outputDir, Name (files ! j)])"
  shows "written outputDir (files ! j) (write_files outputDir n (take j files) w)
       \<and> node_at (fs (write_files outputDir n files w))
            (resolve (cwd w) (Join [outputDir, Name (files ! i)]))
           = Some (Regular (Code (files ! j)))"
proof -
  let ?wi = "write_files outputDir n (take i files) w"
  let ?wj = "write_files outputDir n (take j files) w"
  have same: "fullPath outputDir (files ! j) = fullPath outputDir (files ! i)"
    using assms(3) by (simp add: fullPath_def)
  from assms(1,2) have i: "i < length files" by simp
  have wj: "written outputDir (files ! j) ?wj"
  proof (cases "written outputDir (files ! j) ?wj")
    case True
    then show ?thesis .
  next
    case False
    with assms(4) have wi: "written outputDir (files ! i) ?wi"
      by simp
    from assms(1,2) have "take j files = take (Suc i) files @ take (j - Suc i) (drop (Suc i) files)"
      by (metis Suc_leI le_add_diff_inverse take_add)
    then have "?wj = write_files outputDir (n + Suc i) (take (j - Suc i) (drop (Suc i) files))
                       (write_file outputDir (n + i) (files ! i) ?wi)"
      using i by (simp add: write_files_append write_files_take_Suc min_def)
    with written_after [OF wi same] show ?thesis
      by simp
  qed
  from assms(2) have split: "files = take j files @ files ! j # drop (Suc j) files"
    by (simp add: id_take_nth_drop)
  have later: "\<forall>g \<in> set (drop (Suc j) files).
                 resolve (cwd w) (fullPath outputDir g)
                   \<noteq> resolve (cwd w) (fullPath outputDir (files ! j))"
  proof
    fix g assume "g \<in> set (drop (Suc j) files)"
    then obtain m where m: "m < length files - Suc j" "g = files ! (Suc j + m)"
      by (auto simp: in_set_conv_nth)
    with assms(5) [rule_format, of "Suc j + m"] show
      "resolve (cwd w) (fullPath outputDir g) \<noteq> resolve (cwd w) (fullPath outputDir (files ! j))"
      by (simp add: fullPath_def)
  qed
  from last_write_wins [OF wj later] split
  have "node_at (fs (write_files outputDir n files w))
          (resolve (cwd w) (fullPath outputDir (files ! j))) = Some (Regular (Code (files ! j)))"
    by simp
  with wj assms(3) show ?thesis
    by (simp add: fullPath_def)
qed

definition duplicate_files :: "File list" where
  "duplicate_files =
     [\<lparr>Name = ''a.txt'', Code = ''first''\<rparr>, \<lparr>Name = ''b.txt'', Code = ''other''\<rparr>,
      \<lparr>Name = ''a.txt'', Code = ''second''\<rparr>]"

theorem last_record_wins_witness:
  "written ''output'' (duplicate_files ! 0)
     (write_files ''output'' 0 (take 0 duplicate_files) empty_world)
   \<and> written ''output'' (duplicate_files ! 2)
     (write_files ''output'' 0 (take 2 duplicate_files) empty_world)
   \<and> node_at (fs (write_files ''output'' 0 duplicate_files empty_world)) [''output'', ''a.txt'']
       = Some (Regular ''second'')"
proof -
  have h3: "Name (duplicate_files ! 0) = Name (duplicate_files ! 2)"
    by (simp add: duplicate_files_def)
  have h4: "written ''output'' (duplicate_files ! 0)
              (write_files ''output'' 0 (take 0 duplicate_files) empty_world)"
    by (simp add: duplicate_files_def empty_world_def written_def fullPath_def run
          del: os_MkdirAll_simps os_WriteFile_simps)
  have h5: "\<forall>k < length duplicate_files. 2 < k \<longrightarrow>
           resolve (cwd empty_world) (Join [''output'', Name (duplicate_files ! k)])
             \<noteq> resolve (cwd empty_world) (Join [''output'', Name (duplicate_files ! 2)])"
    by (simp add: duplicate_files_def)
  have r: "resolve (cwd empty_world) (Join [''output'', Name (duplicate_files ! 0)])
             = [''output'', ''a.txt'']"
    by (simp add: duplicate_files_def empty_world_def run)
  from last_record_wins [of 0 2 duplicate_files "''output''" 0 empty_world, OF _ _ h3 _ h5] h4
  have "written ''output'' (duplicate_files ! 2)
          (write_files ''output'' 0 (take 2 duplicate_files) empty_world)
        \<and> node_at (fs (write_files ''output'' 0 duplicate_files empty_world))
            (resolve (cwd empty_world) (Join [''output'', Name (duplicate_files ! 0)]))
           = Some (Regular (Code (duplicate_files ! 2)))"
    by (simp add: duplicate_files_def)
  with h4 r show ?thesis
    by (simp add: duplicate_files_def)
qed

text \<open>
  C8 as stated fails: where a directory already stands at the path of the two records,
  neither write succeeds, and at the end the path still holds the directory.
\<close>

definition blocked_world :: world where
  "blocked_world =
     \<lparr>fs = [[''output''] \<mapsto> Directory, [''output'', ''data''] \<mapsto> Directory],
      cwd = [], trace = []\<rparr>"

theorem last_record_wins_counterexample:
  \<open>Unmarshal (TrimSpace
      ''[{"file_name":"data","source_code":"first"},{"file_name":"data","source_code":"second"}]'')
     = Some [\<lparr>Name = ''data'', Code = ''first''\<rparr>, \<lparr>Name = ''data'', Code = ''second''\<rparr>]
   \<and> resolve (cwd blocked_world) (Join [''output'', ''data'']) = [''output'', ''data'']
   \<and> fs (snd (materialize ''output'' (Text
        ''[{"file_name":"data","source_code":"first"},{"file_name":"data","source_code":"second"}]'')
        blocked_world)) [''output'', ''data''] = Some Directory
   \<and> writes (trace (snd (materialize ''output'' (Text
        ''[{"file_name":"data","source_code":"first"},{"file_name":"data","source_code":"second"}]'')
        blocked_world))) = []\<close>
  by (simp add: run blocked_world_def del: os_MkdirAll_simps os_WriteFile_simps)

subsection \<open>A run in which no call fails\<close>








subsection \<open>The type assertion\<close>

text \<open>
  \<^bold>\<open>C10\<close> (as amended). Let the client answer with a first candidate whose first part is
  not a \<^verbatim>\<open>genai.Text\<close>. If \<^verbatim>\<open>json.MarshalIndent\<close> of that part succeeds (line 92), the
  program prints the serialized part and panics at the type assertion of line 104. If it
  fails, the program prints the error and returns (lines 93 to 96), and the assertion is
  not reached. In both cases no file system call is made.
\<close>

theorem text_assertion_panics:
  assumes "key_flag (Args e) = Inr k" and "k \<noteq> []"
    and "NewClient_result e = None"
    and "GenerateContent_result e (instruction (scanner_Text e))
           = Inr (Some (OtherPart # parts) # candidates)"
  shows "(\<forall>prettyJSON. MarshalIndent_result e OtherPart = Inr prettyJSON \<longrightarrow>
            fst (main e w) = Panicked
            \<and> stdout (trace (snd (main e w)))
                = stdout (trace w)
                    @ [''Enter your prompt: '', ''\<newline>API Response:\<newline>'',
                       prettyJSON @ ''\<newline>''])
       \<and> (\<forall>err. MarshalIndent_result e OtherPart = Inl err \<longrightarrow>
            fst (main e w) = Returned
            \<and> stdout (trace (snd (main e w)))
                = stdout (trace w)
                    @ [''Enter your prompt: '',
                       ''Error serializing response: '' @ err @ ''\<newline>''])
       \<and> fs (snd (main e w)) = fs w
       \<and> mkdirs (trace (snd (main e w))) = mkdirs (trace w)
       \<and> writes (trace (snd (main e w))) = writes (trace w)"
proof -
  have m: "main e w = request ''output'' k e w"
    by (rule main_flags [OF assms(1,2)])
  show ?thesis
  proof (cases "MarshalIndent_result e OtherPart")
    case (Inl err)
    with assms(3,4) show ?thesis
      by (simp add: m request_def Let_def Println_def Print_def log_event_def)
  next
    case (Inr prettyJSON)
    with assms(3,4) show ?thesis
      by (simp add: m request_def materialize_def Let_def Println_def Print_def log_event_def)
  qed
qed

theorem text_assertion_panics_witness:
  "key_flag [''-key'', ''K''] = Inr ''K''
   \<and> fst (main (demo_env [''-key'', ''K''] [Some [OtherPart]]) empty_world) = Panicked
   \<and> stdout (trace (snd (main (demo_env [''-key'', ''K''] [Some [OtherPart]]) empty_world)))
       = [''Enter your prompt: '', ''\<newline>API Response:\<newline>'', ''{}\<newline>'']
   \<and> fs (snd (main (demo_env [''-key'', ''K''] [Some [OtherPart]]) empty_world)) = Map.empty
   \<and> writes (trace (snd (main (demo_env [''-key'', ''K''] [Some [OtherPart]]) empty_world))) = []"
proof -
  let ?e = "demo_env [''-key'', ''K''] [Some [OtherPart]]"
  have h1: "key_flag (Args ?e) = Inr ''K''"
    by (simp add: key_flag_def demo_env_def run)
  have h2: "''K'' \<noteq> []"
    by simp
  have h3: "NewClient_result ?e = None"
    by (simp add: demo_env_def)
  have h4: "GenerateContent_result ?e (instruction (scanner_Text ?e))
              = Inr (Some (OtherPart # []) # [])"
    by (simp add: demo_env_def)
  have h5: "MarshalIndent_result ?e OtherPart = Inr ''{}''"
    by (simp add: demo_env_def)
  from text_assertion_panics [OF h1 h2 h3 h4, of empty_world] h1 h5 show ?thesis
    by (simp add: demo_env_def empty_world_def)
qed

text \<open>
  C10 as stated fails: where the part cannot be serialized, the program reports an error
  and returns; it does not panic.
\<close>

theorem text_assertion_counterexample:
  "fst (main ((demo_env [''-key'', ''K''] [Some [OtherPart]])
                \<lparr>MarshalIndent_result := \<lambda>_. Inl ''json: unsupported value''\<rparr>) empty_world)
     = Returned
   \<and> stdout (trace (snd (main ((demo_env [''-key'', ''K''] [Some [OtherPart]])
                \<lparr>MarshalIndent_result := \<lambda>_. Inl ''json: unsupported value''\<rparr>) empty_world)))
       = [''Enter your prompt: '',
          ''Error serializing response: json: unsupported value\<newline>'']"
  by (simp add: demo_env_def empty_world_def run)

subsection \<open>White space around the response text\<close>

text \<open>
  The conversion \<^verbatim>\<open>string(runes)\<close> of Go: the UTF-8 encodings of the runes, one after
  the other. A padding of white space is the string of a list of runes that are all
  \<^verbatim>\<open>unicode.IsSpace\<close>.
\<close>

definition string_of_runes :: "nat list \<Rightarrow> string" where
  "string_of_runes rs = concat (map EncodeRune rs)"

lemma byte_chr: "byte (chr n) = n mod 256"
  by (simp add: byte_def chr_def)

lemma IsSpace_cases:
  "IsSpace r \<Longrightarrow>
     r \<in> {0x09, 0x0A, 0x0B, 0x0C, 0x0D, 0x20, 0x85, 0xA0, 0x1680, 0x2000, 0x2001, 0x2002,
          0x2003, 0x2004, 0x2005, 0x2006, 0x2007, 0x2008, 0x2009, 0x200A, 0x2028, 0x2029,
          0x202F, 0x205F, 0x3000}"
  unfolding IsSpace_def by simp arith

lemma first_byte_range:
  "first_byte p0 = Some (sz, lo, hi) \<Longrightarrow> 2 \<le> sz \<and> sz \<le> 4 \<and> 0x80 \<le> lo \<and> hi \<le> 0xBF"
  by (auto simp: first_byte_def split: if_splits)

lemma EncodeRune_ascii: "r < 0x80 \<Longrightarrow> EncodeRune r = [chr r]"
  by (simp add: EncodeRune_def Let_def RuneError_def)

lemma EncodeRune_values:
  "EncodeRune 0x85 = [chr 0xC2, chr 0x85]"
  "EncodeRune 0xA0 = [chr 0xC2, chr 0xA0]"
  "EncodeRune 0x1680 = [chr 0xE1, chr 0x9A, chr 0x80]"
  "EncodeRune 0x2000 = [chr 0xE2, chr 0x80, chr 0x80]"
  "EncodeRune 0x2001 = [chr 0xE2, chr 0x80, chr 0x81]"
  "EncodeRune 0x2002 = [chr 0xE2, chr 0x80, chr 0x82]"
  "EncodeRune 0x2003 = [chr 0xE2, chr 0x80, chr 0x83]"
  "EncodeRune 0x2004 = [chr 0xE2, chr 0x80, chr 0x84]"
  "EncodeRune 0x2005 = [chr 0xE2, chr 0x80, chr 0x85]"
  "EncodeRune 0x2006 = [chr 0xE2, chr 0x80, chr 0x86]"
  "EncodeRune 0x2007 = [chr 0xE2, chr 0x80, chr 0x87]"
  "EncodeRune 0x2008 = [chr 0xE2, chr 0x80, chr 0x88]"
  "EncodeRune 0x2009 = [chr 0xE2, chr 0x80, chr 0x89]"
  "EncodeRune 0x200A = [chr 0xE2, chr 0x80, chr 0x8A]"
  "EncodeRune 0x2028 = [chr 0xE2, chr 0x80, chr 0xA8]"
  "EncodeRune 0x2029 = [chr 0xE2, chr 0x80, chr 0xA9]"
  "EncodeRune 0x202F = [chr 0xE2, chr 0x80, chr 0xAF]"
  "EncodeRune 0x205F = [chr 0xE2, chr 0x81, chr 0x9F]"
  "EncodeRune 0x3000 = [chr 0xE3, chr 0x80, chr 0x80]"
  by (simp_all add: EncodeRune_def Let_def RuneError_def)

lemma DecodeRune_append:
  assumes "DecodeRune e = (r, n)" and "r \<noteq> RuneError"
  shows "DecodeRune (e @ s) = (r, n) \<and> n \<le> length e"
proof (cases e)
  case Nil
  with assms show ?thesis by (simp add: DecodeRune_def)
next
  case (Cons c bs)
  show ?thesis
  proof (cases "byte c < RuneSelf")
    case True
    with assms Cons show ?thesis by (auto simp: DecodeRune_def)
  next
    case False
    show ?thesis
    proof (cases "first_byte (byte c)")
      case None
      with assms Cons False show ?thesis by (simp add: DecodeRune_def)
    next
      case (Some t)
      obtain sz lo hi where t: "t = (sz, lo, hi)" by (cases t)
      from first_byte_range Some t have sz: "2 \<le> sz" "sz \<le> 4" by blast+
      from assms Cons False Some t have len: "sz \<le> length bs + 1"
        by (auto simp: DecodeRune_def split: if_splits)
      from sz consider "sz = 2" | "sz = 3" | "sz = 4" by arith
      then show ?thesis
      proof cases
        case 1
        with len obtain b1 bs' where "bs = b1 # bs'" by (cases bs) auto
        with assms Cons False Some t 1 show ?thesis
          by (auto simp: DecodeRune_def Let_def split: if_splits)
      next
        case 2
        with len obtain b1 b2 bs' where "bs = b1 # b2 # bs'"
          by (cases bs; cases "tl bs") auto
        with assms Cons False Some t 2 show ?thesis
          by (auto simp: DecodeRune_def Let_def split: if_splits)
      next
        case 3
        with len obtain b1 b2 b3 bs' where "bs = b1 # b2 # b3 # bs'"
          by (cases bs; cases "tl bs"; cases "tl (tl bs)") auto
        with assms Cons False Some t 3 show ?thesis
          by (auto simp: DecodeRune_def Let_def split: if_splits)
      qed
    qed
  qed
qed

lemma DecodeRune_le: "snd (DecodeRune e) \<le> length e"
  by (cases e; cases "tl e"; cases "tl (tl e)"; cases "tl (tl (tl e))")
     (auto simp: DecodeRune_def Let_def split: option.splits dest!: first_byte_range)

text \<open>Bytes after the end of a string that begin with a byte that is no continuation
  byte do not change what the string decodes to.\<close>

lemma DecodeRune_before_start:
  assumes "t \<noteq> []" and "w = [] \<or> \<not> is_cont (byte (hd w))"
  shows "DecodeRune (t @ w) = DecodeRune t"
proof (cases w)
  case Nil
  then show ?thesis by simp
next
  case (Cons d w')
  with assms(2) have d: "\<not> is_cont (byte d)" by simp
  from assms(1) obtain c bs where e: "t = c # bs" by (cases t) auto
  show ?thesis
  proof (cases "first_byte (byte c)")
    case None
    with e show ?thesis by (simp add: DecodeRune_def)
  next
    case (Some u)
    obtain sz lo hi where u: "u = (sz, lo, hi)" by (cases u)
    from first_byte_range Some u have sz: "2 \<le> sz" "sz \<le> 4" "0x80 \<le> lo" "hi \<le> 0xBF"
      by blast+
    from d sz have out: "byte d < lo \<or> hi < byte d"
      by (auto simp: is_cont_def)
    consider "bs = []" | b1 where "bs = [b1]" | b1 b2 where "bs = [b1, b2]"
      | b1 b2 b3 bs' where "bs = b1 # b2 # b3 # bs'"
      by (cases bs; cases "tl bs"; cases "tl (tl bs)") auto
    then show ?thesis
    proof cases
      case 1
      with e Cons Some u sz out show ?thesis
        by (auto simp: DecodeRune_def Let_def)
    next
      case 2
      with e Cons Some u sz d show ?thesis
        by (auto simp: DecodeRune_def Let_def)
    next
      case 3
      with e Cons Some u sz d show ?thesis
        by (auto simp: DecodeRune_def Let_def)
    next
      case 4
      with e Cons Some u sz show ?thesis
        by (auto simp: DecodeRune_def Let_def)
    qed
  qed
qed

lemma first_byte_start: "first_byte p0 = Some u \<Longrightarrow> \<not> is_cont p0 \<and> RuneSelf \<le> p0"
  by (auto simp: first_byte_def is_cont_def RuneSelf_def split: if_splits)

lemma DecodeRune_shape:
  assumes "DecodeRune e = (r, length e)" and "r \<noteq> RuneError" and "e \<noteq> []"
  shows "(\<exists>c. e = [c] \<and> byte c < RuneSelf \<and> r = byte c)
       \<or> (\<exists>c bs. e = c # bs \<and> bs \<noteq> [] \<and> length bs \<le> 3 \<and> \<not> is_cont (byte c)
             \<and> (\<forall>b \<in> set bs. is_cont (byte b)))"
proof -
  from assms(3) obtain c bs where e: "e = c # bs" by (cases e) auto
  show ?thesis
  proof (cases "byte c < RuneSelf")
    case True
    with assms e show ?thesis by (auto simp: DecodeRune_def)
  next
    case False
    show ?thesis
    proof (cases "first_byte (byte c)")
      case None
      with assms e False show ?thesis by (simp add: DecodeRune_def)
    next
      case (Some u)
      obtain sz lo hi where u: "u = (sz, lo, hi)" by (cases u)
      from first_byte_range Some u have sz: "2 \<le> sz" "sz \<le> 4" "0x80 \<le> lo" "hi \<le> 0xBF"
        by blast+
      from first_byte_start [OF Some] have c: "\<not> is_cont (byte c)" by simp
      consider "bs = []" | b1 where "bs = [b1]" | b1 b2 where "bs = [b1, b2]"
        | b1 b2 b3 where "bs = [b1, b2, b3]" | b1 b2 b3 b4 bs' where "bs = b1 # b2 # b3 # b4 # bs'"
        by (cases bs; cases "tl bs"; cases "tl (tl bs)"; cases "tl (tl (tl bs))") auto
      then show ?thesis
      proof cases
        case 1
        with assms e False Some u sz show ?thesis
          by (auto simp: DecodeRune_def Let_def split: if_splits)
      next
        case 2
        with assms e False Some u sz c show ?thesis
          by (auto simp: DecodeRune_def Let_def is_cont_def split: if_splits)
      next
        case 3
        with assms e False Some u sz c show ?thesis
          by (auto simp: DecodeRune_def Let_def is_cont_def split: if_splits)
      next
        case 4
        with assms e False Some u sz c show ?thesis
          by (auto simp: DecodeRune_def Let_def is_cont_def split: if_splits)
      next
        case 5
        with assms e False Some u sz c show ?thesis
          by (auto simp: DecodeRune_def Let_def is_cont_def split: if_splits)
      qed
    qed
  qed
qed

lemma last_start_rune:
  assumes "\<not> is_cont (byte c)" and "\<forall>b \<in> set bs. is_cont (byte b)"
    and "lim \<le> length y" and "k < length bs"
  shows "last_start (y @ c # bs) lim (length y + Suc k) = length y"
  using assms(4)
proof (induction k)
  case 0
  from assms(1,3) show ?case
    by (subst last_start.simps) (simp add: RuneStart_def nth_append)
next
  case (Suc k)
  then have k: "k < length bs" by simp
  with assms(2) have "is_cont (byte (bs ! k))" by simp
  with assms(3) Suc.IH [OF k] show ?case
    by (subst last_start.simps) (simp add: RuneStart_def nth_append)
qed

lemma DecodeLastRune_append:
  assumes "DecodeRune e = (r, length e)" and "r \<noteq> RuneError" and "e \<noteq> []"
  shows "DecodeLastRune (y @ e) = (r, length e)"
  using DecodeRune_shape [OF assms]
proof (elim disjE exE conjE)
  fix c assume "e = [c]" "byte c < RuneSelf" "r = byte c"
  then show ?thesis
    by (simp add: DecodeLastRune_def nth_append)
next
  fix c bs
  assume e: "e = c # bs" and bs: "bs \<noteq> []" "length bs \<le> 3"
    and c: "\<not> is_cont (byte c)" and cont: "\<forall>b \<in> set bs. is_cont (byte b)"
  from bs obtain k where k: "length bs = Suc k" by (cases bs) auto
  from bs(2) have lim: "length (y @ e) - 4 \<le> length y"
    by (simp add: e)
  from last_start_rune [OF c cont lim, of k] k
  have start: "last_start (y @ e) (length (y @ e) - 4) (length (y @ e) - 1) = length y"
    by (simp add: e)
  from bs cont have "is_cont (byte (last bs))" by simp
  moreover from bs have "(y @ e) ! (length (y @ e) - 1) = last bs"
    by (simp add: e nth_append last_conv_nth)
  ultimately have last: "\<not> byte ((y @ e) ! (length (y @ e) - 1)) < RuneSelf"
    by (simp add: is_cont_def RuneSelf_def)
  from assms(1) start last show ?thesis
    unfolding DecodeLastRune_def Let_def by (simp add: e)
qed

lemma DecodeRune_ascii: "r < 0x80 \<Longrightarrow> DecodeRune [chr r] = (r, 1)"
  by (simp add: DecodeRune_def RuneSelf_def byte_chr)

lemma DecodeRune_values:
  "DecodeRune [chr 0xC2, chr 0x85] = (0x85, 2)"
  "DecodeRune [chr 0xC2, chr 0xA0] = (0xA0, 2)"
  "DecodeRune [chr 0xE1, chr 0x9A, chr 0x80] = (0x1680, 3)"
  "DecodeRune [chr 0xE2, chr 0x80, chr 0x80] = (0x2000, 3)"
  "DecodeRune [chr 0xE2, chr 0x80, chr 0x81] = (0x2001, 3)"
  "DecodeRune [chr 0xE2, chr 0x80, chr 0x82] = (0x2002, 3)"
  "DecodeRune [chr 0xE2, chr 0x80, chr 0x83] = (0x2003, 3)"
  "DecodeRune [chr 0xE2, chr 0x80, chr 0x84] = (0x2004, 3)"
  "DecodeRune [chr 0xE2, chr 0x80, chr 0x85] = (0x2005, 3)"
  "DecodeRune [chr 0xE2, chr 0x80, chr 0x86] = (0x2006, 3)"
  "DecodeRune [chr 0xE2, chr 0x80, chr 0x87] = (0x2007, 3)"
  "DecodeRune [chr 0xE2, chr 0x80, chr 0x88] = (0x2008, 3)"
  "DecodeRune [chr 0xE2, chr 0x80, chr 0x89] = (0x2009, 3)"
  "DecodeRune [chr 0xE2, chr 0x80, chr 0x8A] = (0x200A, 3)"
  "DecodeRune [chr 0xE2, chr 0x80, chr 0xA8] = (0x2028, 3)"
  "DecodeRune [chr 0xE2, chr 0x80, chr 0xA9] = (0x2029, 3)"
  "DecodeRune [chr 0xE2, chr 0x80, chr 0xAF] = (0x202F, 3)"
  "DecodeRune [chr 0xE2, chr 0x81, chr 0x9F] = (0x205F, 3)"
  "DecodeRune [chr 0xE3, chr 0x80, chr 0x80] = (0x3000, 3)"
  by (simp_all add: DecodeRune_def RuneSelf_def first_byte_def is_cont_def Let_def byte_chr)

lemma DecodeRune_EncodeRune_space:
  assumes "IsSpace r"
  shows "DecodeRune (EncodeRune r) = (r, length (EncodeRune r))"
proof (cases "r < 0x80")
  case True
  then show ?thesis by (simp add: EncodeRune_ascii DecodeRune_ascii)
next
  case False
  with IsSpace_cases [OF assms] show ?thesis
    by (auto simp: EncodeRune_values DecodeRune_values)
qed

lemma IsSpace_RuneError: "IsSpace r \<Longrightarrow> r \<noteq> RuneError"
  by (auto simp: IsSpace_def RuneError_def)

lemma EncodeRune_not_Nil: "EncodeRune r \<noteq> []"
  by (simp add: EncodeRune_def Let_def)

lemma EncodeRune_space_start:
  assumes "IsSpace r"
  shows "\<not> is_cont (byte (hd (EncodeRune r)))"
proof (cases "r < 0x80")
  case True
  then show ?thesis by (simp add: EncodeRune_ascii is_cont_def byte_chr)
next
  case False
  with IsSpace_cases [OF assms] show ?thesis
    by (auto simp: EncodeRune_values is_cont_def byte_chr)
qed

lemma string_of_runes_simps:
  "string_of_runes [] = []"
  "string_of_runes (r # rs) = EncodeRune r @ string_of_runes rs"
  "string_of_runes (rs @ rs') = string_of_runes rs @ string_of_runes rs'"
  by (simp_all add: string_of_runes_def)

lemma TrimLeft_Nil [simp]: "TrimLeft [] = []"
  by (subst TrimLeft.simps) simp

lemma TrimRight_Nil [simp]: "TrimRight [] = []"
  by (subst TrimRight.simps) simp

lemma TrimLeft_spaces:
  "list_all IsSpace rs \<Longrightarrow> TrimLeft (string_of_runes rs @ t) = TrimLeft t"
proof (induction rs)
  case Nil
  show ?case by (simp add: string_of_runes_simps)
next
  case (Cons r rs)
  then have r: "IsSpace r" and rs: "list_all IsSpace rs" by simp_all
  from DecodeRune_append [OF DecodeRune_EncodeRune_space [OF r] IsSpace_RuneError [OF r]]
  have d: "DecodeRune (EncodeRune r @ string_of_runes rs @ t) = (r, length (EncodeRune r))"
    by blast
  have "TrimLeft (string_of_runes (r # rs) @ t) = TrimLeft (string_of_runes rs @ t)"
    by (subst TrimLeft.simps) (simp add: string_of_runes_simps d r EncodeRune_not_Nil)
  with Cons.IH [OF rs] show ?case by simp
qed

lemma TrimRight_spaces:
  "list_all IsSpace rs \<Longrightarrow> TrimRight (x @ string_of_runes rs) = TrimRight x"
proof (induction rs rule: rev_induct)
  case Nil
  show ?case by (simp add: string_of_runes_simps)
next
  case (snoc r rs)
  then have r: "IsSpace r" and rs: "list_all IsSpace rs" by simp_all
  from DecodeLastRune_append [OF DecodeRune_EncodeRune_space [OF r] IsSpace_RuneError [OF r]
    EncodeRune_not_Nil, of "x @ string_of_runes rs"]
  have d: "DecodeLastRune (x @ string_of_runes rs @ EncodeRune r) = (r, length (EncodeRune r))"
    by simp
  have "TrimRight (x @ string_of_runes (rs @ [r])) = TrimRight (x @ string_of_runes rs)"
    by (subst TrimRight.simps) (simp add: string_of_runes_simps d r EncodeRune_not_Nil)
  with snoc.IH [OF rs] show ?case by simp
qed

lemma TrimLeft_before_start:
  assumes "w = [] \<or> \<not> is_cont (byte (hd w))"
  shows "TrimLeft (t @ w) = (if TrimLeft t = [] then TrimLeft w else TrimLeft t @ w)"
proof (induction t rule: TrimLeft.induct)
  case (1 s)
  show ?case
  proof (cases "s = []")
    case True
    then show ?thesis by simp
  next
    case False
    obtain r size where d: "DecodeRune s = (r, size)" by (cases "DecodeRune s")
    from DecodeRune_before_start [OF False assms] d
    have d': "DecodeRune (s @ w) = (r, size)" by simp
    from DecodeRune_le [of s] d have le: "size \<le> length s" by simp
    show ?thesis
    proof (cases "IsSpace r")
      case True
      have "TrimLeft (s @ w) = TrimLeft (drop size s @ w)"
        by (subst TrimLeft.simps) (simp add: d' True False le)
      moreover have "TrimLeft s = TrimLeft (drop size s)"
        by (subst TrimLeft.simps) (simp add: d True False)
      moreover from "1.IH" [OF False d [symmetric] refl True]
      have "TrimLeft (drop size s @ w)
              = (if TrimLeft (drop size s) = [] then TrimLeft w else TrimLeft (drop size s) @ w)" .
      ultimately show ?thesis by simp
    next
      case nsp: False
      have "TrimLeft (s @ w) = s @ w"
        by (subst TrimLeft.simps) (simp add: d' nsp False)
      moreover have "TrimLeft s = s"
        by (subst TrimLeft.simps) (simp add: d nsp False)
      ultimately show ?thesis using False by simp
    qed
  qed
qed

lemma string_of_runes_start:
  "list_all IsSpace rs \<Longrightarrow>
     string_of_runes rs = [] \<or> \<not> is_cont (byte (hd (string_of_runes rs)))"
  by (cases rs) (simp_all add: string_of_runes_simps EncodeRune_not_Nil EncodeRune_space_start)

lemma TrimSpace_padding:
  assumes "list_all IsSpace rs1" and "list_all IsSpace rs2"
  shows "TrimSpace (string_of_runes rs1 @ t @ string_of_runes rs2) = TrimSpace t"
proof -
  from TrimLeft_spaces [OF assms(2), of "[]"] have e: "TrimLeft (string_of_runes rs2) = []"
    by simp
  have "TrimLeft (string_of_runes rs1 @ t @ string_of_runes rs2)
          = TrimLeft (t @ string_of_runes rs2)"
    by (rule TrimLeft_spaces [OF assms(1)])
  also have "\<dots> = (if TrimLeft t = [] then [] else TrimLeft t @ string_of_runes rs2)"
    by (simp add: TrimLeft_before_start [OF string_of_runes_start [OF assms(2)]] e)
  finally show ?thesis
    by (simp add: TrimSpace_def TrimRight_spaces [OF assms(2)])
qed

text \<open>
  \<^bold>\<open>C7\<close>. Let \<open>w1\<close> and \<open>w2\<close> be strings of white space runes. Then
  \<^verbatim>\<open>strings.TrimSpace\<close> gives the same string for \<open>w1 + t + w2\<close> as for \<open>t\<close>, whatever
  bytes \<open>t\<close> holds, and materializing \<open>w1 + t + w2\<close> ends with the same outcome in the same
  world as materializing \<open>t\<close>: the same files with the same contents, the same calls and
  the same output.
\<close>

theorem trim_equivalence:
  assumes "list_all IsSpace rs1" and "list_all IsSpace rs2"
  shows "TrimSpace (string_of_runes rs1 @ t @ string_of_runes rs2) = TrimSpace t
       \<and> materialize outputDir (Text (string_of_runes rs1 @ t @ string_of_runes rs2)) w
           = materialize outputDir (Text t) w"
  by (simp add: materialize_def TrimSpace_padding [OF assms])

theorem trim_equivalence_witness:
  \<open>list_all IsSpace [0x20, 0x0A, 0x3000] \<and> list_all IsSpace [0x09, 0x2028, 0x0D, 0x0A]
   \<and> string_of_runes [0x20, 0x0A, 0x3000] = [CHR 0x20, CHR 0x0A, CHR 0xE3, CHR 0x80, CHR 0x80]
   \<and> string_of_runes [0x09, 0x2028, 0x0D, 0x0A]
       = [CHR 0x09, CHR 0xE2, CHR 0x80, CHR 0xA8, CHR 0x0D, CHR 0x0A]
   \<and> TrimSpace ([CHR 0x20, CHR 0x0A, CHR 0xE3, CHR 0x80, CHR 0x80]
         @ ''[{"file_name":"src/a.go","source_code":" x "}]''
         @ [CHR 0x09, CHR 0xE2, CHR 0x80, CHR 0xA8, CHR 0x0D, CHR 0x0A])
       = ''[{"file_name":"src/a.go","source_code":" x "}]''
   \<and> writes (trace (snd (materialize ''output'' (Text
         ([CHR 0x20, CHR 0x0A, CHR 0xE3, CHR 0x80, CHR 0x80]
           @ ''[{"file_name":"src/a.go","source_code":" x "}]''
           @ [CHR 0x09, CHR 0xE2, CHR 0x80, CHR 0xA8, CHR 0x0D, CHR 0x0A])) empty_world)))
       = [(''output/src/a.go'', '' x '')]\<close>
proof -
  let ?t = \<open>''[{"file_name":"src/a.go","source_code":" x "}]''\<close>
  have h1: "list_all IsSpace [0x20, 0x0A, 0x3000]"
    by (simp add: IsSpace_def)
  have h2: "list_all IsSpace [0x09, 0x2028, 0x0D, 0x0A]"
    by (simp add: IsSpace_def)
  have s1: "string_of_runes [0x20, 0x0A, 0x3000]
              = [CHR 0x20, CHR 0x0A, CHR 0xE3, CHR 0x80, CHR 0x80]"
    by (simp add: string_of_runes_def EncodeRune_def Let_def RuneError_def chr_eq_iff byte_def)
  have s2: "string_of_runes [0x09, 0x2028, 0x0D, 0x0A]
              = [CHR 0x09, CHR 0xE2, CHR 0x80, CHR 0xA8, CHR 0x0D, CHR 0x0A]"
    by (simp add: string_of_runes_def EncodeRune_def Let_def RuneError_def chr_eq_iff byte_def)
  have t: "TrimSpace ?t = ?t"
    by (simp add: run)
  have m: "writes (trace (snd (materialize ''output'' (Text ?t) empty_world)))
             = [(''output/src/a.go'', '' x '')]"
    by (simp add: run empty_world_def del: os_MkdirAll_simps os_WriteFile_simps)
  from trim_equivalence [OF h1 h2, of ?t "''output''" empty_world] h1 h2 s1 s2 t m
  show ?thesis
    by simp
qed

end
